theory Spec2Isabelle
  imports Main "HOL-Library.Word" "HOL-Library.AList" "HOL-Library.Sublist"
begin

unbundle bit_operations_syntax

section \<open>Python strings\<close>

text \<open>
  A Python \<open>str\<close> is a sequence of Unicode code points; a character is modelled by its
  code point, so that \<open>str.strip\<close> and \<open>str.split\<close> see the same whitespace set as
  the interpreter and the non-ASCII characters of the prompt templates are single
  characters. \<open>pystr_of\<close> embeds an ASCII literal.
\<close>

type_synonym pystr = "nat list"

definition pystr_of :: "string \<Rightarrow> pystr" where
  "pystr_of s = map of_char s"

text \<open>
  \<open>str.isspace\<close> on one character: the code points the interpreter treats as whitespace
  in \<open>strip()\<close> and \<open>split()\<close> without arguments.
\<close>

definition isspace :: "nat \<Rightarrow> bool" where
  "isspace c \<longleftrightarrow>
     (9 \<le> c \<and> c \<le> 13) \<or> (28 \<le> c \<and> c \<le> 32) \<or> c = 133 \<or> c = 160 \<or> c = 5760 \<or>
     (8192 \<le> c \<and> c \<le> 8202) \<or> c = 8232 \<or> c = 8233 \<or> c = 8239 \<or> c = 8287 \<or> c = 12288"

text \<open>\<open>s.strip(chars)\<close>, with the character set given as a predicate; \<open>s.strip()\<close>.\<close>

definition strip_chars :: "(nat \<Rightarrow> bool) \<Rightarrow> pystr \<Rightarrow> pystr" where
  "strip_chars p s = rev (dropWhile p (rev (dropWhile p s)))"

definition strip :: "pystr \<Rightarrow> pystr" where
  "strip s = strip_chars isspace s"

text \<open>
  \<open>s.split()\<close> without arguments: skip whitespace, take the maximal run of
  non-whitespace characters, repeat until the end of the string.
\<close>

function split_ws :: "pystr \<Rightarrow> pystr list" where
  "split_ws s =
     (case dropWhile isspace s of
        [] \<Rightarrow> []
      | c # cs \<Rightarrow>
          (c # takeWhile (\<lambda>x. \<not> isspace x) cs) # split_ws (dropWhile (\<lambda>x. \<not> isspace x) cs))"
  by pat_completeness auto
termination
proof (relation "measure length")
  show "wf (measure length)" by simp
next
  fix s :: pystr and c cs
  assume a: "dropWhile isspace s = c # cs"
  have "length (dropWhile (\<lambda>x. \<not> isspace x) cs) \<le> length cs"
    by (rule length_dropWhile_le)
  also have "length cs < length (dropWhile isspace s)" using a by simp
  also have "\<dots> \<le> length s" by (rule length_dropWhile_le)
  finally show "(dropWhile (\<lambda>x. \<not> isspace x) cs, s) \<in> measure length" by simp
qed

declare split_ws.simps [simp del]

text \<open>\<open>sep.join(words)\<close>.\<close>

fun join :: "pystr \<Rightarrow> pystr list \<Rightarrow> pystr" where
  "join sep [] = []"
| "join sep [w] = w"
| "join sep (w # v # ws) = w @ sep @ join sep (v # ws)"

text \<open>\<open>s.startswith(p)\<close>; \<open>s.find(c)\<close> and \<open>s.rfind(c)\<close> for a one-character needle
  (the index of the first, respectively last, occurrence, or \<open>-1\<close>); and the slice
  \<open>s[a:b]\<close> with Python's clamping of both bounds.\<close>

definition startswith :: "pystr \<Rightarrow> pystr \<Rightarrow> bool" where
  "startswith s p \<longleftrightarrow> take (length p) s = p"

definition str_find :: "pystr \<Rightarrow> nat \<Rightarrow> int" where
  "str_find s c = (if c \<in> set s then int (length (takeWhile (\<lambda>x. x \<noteq> c) s)) else - 1)"

definition str_rfind :: "pystr \<Rightarrow> nat \<Rightarrow> int" where
  "str_rfind s c =
     (if c \<in> set s then int (length s) - 1 - int (length (takeWhile (\<lambda>x. x \<noteq> c) (rev s)))
      else - 1)"

definition slice_index :: "nat \<Rightarrow> int \<Rightarrow> nat" where
  "slice_index n i = (if i < 0 then nat (max 0 (int n + i)) else min (nat i) n)"

definition str_slice :: "pystr \<Rightarrow> int \<Rightarrow> int \<Rightarrow> pystr" where
  "str_slice s a b =
     take (slice_index (length s) b - slice_index (length s) a) (drop (slice_index (length s) a) s)"

text \<open>\<open>str(n)\<close> for an integer: its decimal digits, with a minus sign when negative.\<close>

fun str_nat :: "nat \<Rightarrow> pystr" where
  "str_nat n = (if n < 10 then [48 + n] else str_nat (n div 10) @ [48 + n mod 10])"

declare str_nat.simps [simp del]

definition str_int :: "int \<Rightarrow> pystr" where
  "str_int i = (if i < 0 then 45 # str_nat (nat (- i)) else str_nat (nat i))"

section \<open>Python values and exceptions\<close>

text \<open>
  The values \<open>json.loads\<close> can return. A float is kept as the text it was read from
  (\<open>nan\<close>, \<open>inf\<close> and \<open>-inf\<close> for the three constants the decoder accepts): no
  floating-point arithmetic is performed on it anywhere in the program. A \<open>dict\<close> is an
  association list in insertion order with distinct keys.
\<close>

datatype pyval =
    PyNone
  | PyBool bool
  | PyInt int
  | PyFloat pystr
  | PyStr pystr
  | PyList "pyval list"
  | PyDict "(pystr \<times> pyval) list"

text \<open>
  The exceptions the program raises or meets: the \<open>HTTPException\<close> the handlers raise
  themselves, with its status code and detail; the three kinds the two \<open>try\<close> blocks of
  \<open>generate_quiz\<close> can catch; and the \<open>ValueError\<close> of the model client's text
  accessor. A validation error carries the model's name and one entry (location,
  message) per failed field.
\<close>

type_synonym verr = "pystr list \<times> pystr"

datatype py_exception =
    HTTPException (status_code: int) (detail: pystr)
  | JSONDecodeError pystr
  | TypeError pystr
  | ValidationError pystr "verr list"
  | ValueError pystr

text \<open>
  \<open>str(e)\<close>, as the f-strings of \<open>generate_quiz\<close> interpolate it: the message of the
  exception (status code and detail for an \<open>HTTPException\<close>). The decoder's position
  suffix (line, column, character) and the per-error input dump of the validation
  library are left out of the text.
\<close>

definition str_verr :: "verr \<Rightarrow> pystr" where
  "str_verr e = [10] @ join [46] (fst e) @ [10, 32, 32] @ snd e"

definition str_exception :: "py_exception \<Rightarrow> pystr" where
  "str_exception e =
     (case e of
        HTTPException code msg \<Rightarrow> str_int code @ [58, 32] @ msg
      | JSONDecodeError msg \<Rightarrow> msg
      | TypeError msg \<Rightarrow> msg
      | ValueError msg \<Rightarrow> msg
      | ValidationError model errs \<Rightarrow>
          str_nat (length errs) @
          (if length errs = 1 then pystr_of '' validation error for ''
           else pystr_of '' validation errors for '') @
          model @ concat (map str_verr errs))"

section \<open>The JSON decoder (\<open>json.loads\<close>)\<close>

text \<open>
  The standard library's decoder with its default settings (strict strings, no hooks),
  written over the remaining input instead of an index into it: every scanning function
  returns the decoded value together with the rest of the text. Failures are the
  \<open>JSONDecodeError\<close>s the library raises. The interpreter's resource limits (recursion
  depth, the digit limit of integer conversion) are not part of the model.
\<close>

definition json_ws :: "nat \<Rightarrow> bool" where
  "json_ws c \<longleftrightarrow> c = 32 \<or> c = 9 \<or> c = 10 \<or> c = 13"

definition skip_whitespace :: "pystr \<Rightarrow> pystr" where
  "skip_whitespace s = dropWhile json_ws s"

definition isdigit :: "nat \<Rightarrow> bool" where
  "isdigit c \<longleftrightarrow> 48 \<le> c \<and> c \<le> 57"

definition expecting_value :: py_exception where
  "expecting_value = JSONDecodeError (pystr_of ''Expecting value'')"

definition expecting_delimiter :: "nat \<Rightarrow> py_exception" where
  "expecting_delimiter c =
     JSONDecodeError (pystr_of ''Expecting '' @ [39, c, 39] @ pystr_of '' delimiter'')"

definition expecting_property_name :: py_exception where
  "expecting_property_name =
     JSONDecodeError (pystr_of ''Expecting property name enclosed in double quotes'')"

definition unterminated_string :: py_exception where
  "unterminated_string = JSONDecodeError (pystr_of ''Unterminated string starting at'')"

definition invalid_control_character :: py_exception where
  "invalid_control_character = JSONDecodeError (pystr_of ''Invalid control character at'')"

definition invalid_escape :: py_exception where
  "invalid_escape = JSONDecodeError (pystr_of ''Invalid '' @ [92] @ pystr_of ''escape'')"

definition invalid_uXXXX_escape :: py_exception where
  "invalid_uXXXX_escape =
     JSONDecodeError (pystr_of ''Invalid '' @ [92] @ pystr_of ''uXXXX escape'')"

subsection \<open>Strings\<close>

definition hexval :: "nat \<Rightarrow> nat option" where
  "hexval c =
     (if 48 \<le> c \<and> c \<le> 57 then Some (c - 48)
      else if 97 \<le> c \<and> c \<le> 102 then Some (c - 87)
      else if 65 \<le> c \<and> c \<le> 70 then Some (c - 55)
      else None)"

fun decode_hex4 :: "pystr \<Rightarrow> nat option" where
  "decode_hex4 [a, b, c, d] =
     (case (hexval a, hexval b, hexval c, hexval d) of
        (Some x, Some y, Some z, Some w) \<Rightarrow> Some (((x * 16 + y) * 16 + z) * 16 + w)
      | _ \<Rightarrow> None)"
| "decode_hex4 _ = None"

text \<open>The one-character escapes after a backslash.\<close>

definition BACKSLASH :: "nat \<Rightarrow> nat option" where
  "BACKSLASH e =
     (if e = 34 then Some 34
      else if e = 92 then Some 92
      else if e = 47 then Some 47
      else if e = 98 then Some 8
      else if e = 102 then Some 12
      else if e = 110 then Some 10
      else if e = 114 then Some 13
      else if e = 116 then Some 9
      else None)"

text \<open>
  \<open>scanstring\<close> reads a string body after its opening quote and returns the decoded
  characters and the text after the closing quote. A unicode escape needs its four
  hexadecimal digits and at least one more character after them; a high surrogate
  followed by an escaped low surrogate is joined into one code point.
\<close>

function scanstring :: "pystr \<Rightarrow> pystr \<Rightarrow> py_exception + (pystr \<times> pystr)" where
  "scanstring acc [] = Inl unterminated_string"
| "scanstring acc (c # cs) =
     (if c = 34 then Inr (acc, cs)
      else if c = 92 then
        (case cs of
           [] \<Rightarrow> Inl unterminated_string
         | e # es \<Rightarrow>
             if e \<noteq> 117 then
               (case BACKSLASH e of
                  None \<Rightarrow> Inl invalid_escape
                | Some x \<Rightarrow> scanstring (acc @ [x]) es)
             else if length es < 5 then Inl invalid_uXXXX_escape
             else
               (case decode_hex4 (take 4 es) of
                  None \<Rightarrow> Inl invalid_uXXXX_escape
                | Some u \<Rightarrow>
                    if 55296 \<le> u \<and> u \<le> 56319 \<and> 6 < length (drop 4 es) \<and>
                       startswith (drop 4 es) [92, 117]
                    then
                      (case decode_hex4 (take 4 (drop 6 es)) of
                         None \<Rightarrow> Inl invalid_uXXXX_escape
                       | Some u2 \<Rightarrow>
                           if 56320 \<le> u2 \<and> u2 \<le> 57343
                           then scanstring (acc @ [65536 + ((u - 55296) * 1024 + (u2 - 56320))])
                                  (drop 10 es)
                           else scanstring (acc @ [u]) (drop 4 es))
                    else scanstring (acc @ [u]) (drop 4 es)))
      else if c \<le> 31 then Inl invalid_control_character
      else scanstring (acc @ [c]) cs)"
  by pat_completeness auto
termination
  by (relation "measure (\<lambda>(acc, s). length s)") auto

subsection \<open>Numbers\<close>

text \<open>
  The number syntax: an optional minus sign; a single \<open>0\<close> or a non-zero digit followed by
  digits; optionally a point and at least one digit; optionally \<open>e\<close> or \<open>E\<close>, an
  optional sign and at least one digit. The longest match at the start of the text is
  taken. Without fraction and exponent the value is an \<open>int\<close>, otherwise a float.
\<close>

definition int_of_digits :: "pystr \<Rightarrow> int" where
  "int_of_digits ds = foldl (\<lambda>n d. 10 * n + (int d - 48)) 0 ds"

definition match_digits :: "nat \<Rightarrow> pystr \<Rightarrow> (pystr \<times> pystr) option" where
  "match_digits d ds =
     (if d = 48 then Some ([d], ds)
      else if 49 \<le> d \<and> d \<le> 57 then Some (d # takeWhile isdigit ds, dropWhile isdigit ds)
      else None)"

fun match_integer :: "pystr \<Rightarrow> (bool \<times> pystr \<times> pystr) option" where
  "match_integer [] = None"
| "match_integer (c # cs) =
     (if c = 45 then
        (case cs of
           [] \<Rightarrow> None
         | d # ds \<Rightarrow>
             (case match_digits d ds of None \<Rightarrow> None | Some (i, r) \<Rightarrow> Some (True, i, r)))
      else
        (case match_digits c cs of None \<Rightarrow> None | Some (i, r) \<Rightarrow> Some (False, i, r)))"

fun match_frac :: "pystr \<Rightarrow> pystr \<times> pystr" where
  "match_frac (p # f # fs) =
     (if p = 46 \<and> isdigit f then (p # f # takeWhile isdigit fs, dropWhile isdigit fs)
      else ([], p # f # fs))"
| "match_frac r = ([], r)"

fun match_sign :: "pystr \<Rightarrow> pystr \<times> pystr" where
  "match_sign (x # xs) = (if x = 45 \<or> x = 43 then ([x], xs) else ([], x # xs))"
| "match_sign [] = ([], [])"

fun match_exp :: "pystr \<Rightarrow> pystr \<times> pystr" where
  "match_exp (e # es) =
     (if e = 101 \<or> e = 69 then
        (case match_sign es of
           (sign, ds) \<Rightarrow>
             if takeWhile isdigit ds = [] then ([], e # es)
             else (e # sign @ takeWhile isdigit ds, dropWhile isdigit ds))
      else ([], e # es))"
| "match_exp [] = ([], [])"

definition match_number :: "pystr \<Rightarrow> (pyval \<times> pystr) option" where
  "match_number s =
     (case match_integer s of
        None \<Rightarrow> None
      | Some (neg, integer, r1) \<Rightarrow>
          (case match_frac r1 of
             (frac, r2) \<Rightarrow>
               (case match_exp r2 of
                  (exp, r3) \<Rightarrow>
                    if frac = [] \<and> exp = []
                    then Some (PyInt (if neg then - int_of_digits integer
                                      else int_of_digits integer), r3)
                    else Some (PyFloat ((if neg then [45] else []) @ integer @ frac @ exp),
                               r3))))"

subsection \<open>Values, arrays and objects\<close>

text \<open>
  \<open>scan_once\<close> decodes one value at the start of the text. \<open>parse_array\<close> and
  \<open>parse_object\<close> are the loops of the array and object decoders, entered at the first
  element, respectively at the first key, with the elements decoded so far. A repeated
  key keeps its first position and takes the last value, as assignment to a \<open>dict\<close>
  does. The test \<open>length r < length s\<close> on the text left by a nested value always
  succeeds (lemma \<open>scan_once_shorter\<close> below); it is what makes the recursion
  well-founded.
\<close>

function scan_once :: "pystr \<Rightarrow> py_exception + (pyval \<times> pystr)"
  and parse_array :: "pyval list \<Rightarrow> pystr \<Rightarrow> py_exception + (pyval \<times> pystr)"
  and parse_object :: "(pystr \<times> pyval) list \<Rightarrow> pystr \<Rightarrow> py_exception + (pyval \<times> pystr)"
where
  "scan_once [] = Inl expecting_value"
| "scan_once (c # cs) =
     (if c = 34 then
        (case scanstring [] cs of Inl e \<Rightarrow> Inl e | Inr (s, r) \<Rightarrow> Inr (PyStr s, r))
      else if c = 123 then
        (if startswith (skip_whitespace cs) [125]
         then Inr (PyDict [], tl (skip_whitespace cs))
         else parse_object [] (skip_whitespace cs))
      else if c = 91 then
        (if startswith (skip_whitespace cs) [93]
         then Inr (PyList [], tl (skip_whitespace cs))
         else parse_array [] (skip_whitespace cs))
      else if startswith (c # cs) (pystr_of ''null'') then Inr (PyNone, drop 4 (c # cs))
      else if startswith (c # cs) (pystr_of ''true'') then Inr (PyBool True, drop 4 (c # cs))
      else if startswith (c # cs) (pystr_of ''false'') then Inr (PyBool False, drop 5 (c # cs))
      else
        (case match_number (c # cs) of
           Some (v, r) \<Rightarrow> Inr (v, r)
         | None \<Rightarrow>
             if startswith (c # cs) (pystr_of ''NaN'')
             then Inr (PyFloat (pystr_of ''nan''), drop 3 (c # cs))
             else if startswith (c # cs) (pystr_of ''Infinity'')
             then Inr (PyFloat (pystr_of ''inf''), drop 8 (c # cs))
             else if startswith (c # cs) (pystr_of ''-Infinity'')
             then Inr (PyFloat (pystr_of ''-inf''), drop 9 (c # cs))
             else Inl expecting_value))"
| "parse_array acc s =
     (case scan_once s of
        Inl e \<Rightarrow> Inl e
      | Inr (v, r) \<Rightarrow>
          if length r < length s then
            (case skip_whitespace r of
               [] \<Rightarrow> Inl (expecting_delimiter 44)
             | d # r' \<Rightarrow>
                 if d = 93 then Inr (PyList (acc @ [v]), r')
                 else if d = 44 then parse_array (acc @ [v]) (skip_whitespace r')
                 else Inl (expecting_delimiter 44))
          else Inl expecting_value)"
| "parse_object acc s =
     (if \<not> startswith s [34] then Inl expecting_property_name
      else
        (case scanstring [] (tl s) of
           Inl e \<Rightarrow> Inl e
         | Inr (key, r) \<Rightarrow>
             if \<not> startswith (skip_whitespace r) [58] then Inl (expecting_delimiter 58)
             else
               (case scan_once (skip_whitespace (tl (skip_whitespace r))) of
                  Inl e \<Rightarrow> Inl e
                | Inr (v, r') \<Rightarrow>
                    if length r' < length s then
                      (case skip_whitespace r' of
                         [] \<Rightarrow> Inl (expecting_delimiter 44)
                       | d # r'' \<Rightarrow>
                           if d = 125 then Inr (PyDict (AList.update key v acc), r'')
                           else if d = 44 then
                             parse_object (AList.update key v acc) (skip_whitespace r'')
                           else Inl (expecting_delimiter 44))
                    else Inl expecting_value)))"
  by pat_completeness auto
termination
proof -
  have scanstring_length:
    "\<And>acc s k r. scanstring acc s = Inr (k, r) \<Longrightarrow> length r < length s"
  proof -
    fix acc s k r
    show "scanstring acc s = Inr (k, r) \<Longrightarrow> length r < length s"
    proof (induction "length s" arbitrary: acc s rule: less_induct)
      case less
      show ?case
      proof (cases s)
        case Nil
        with less.prems show ?thesis by simp
      next
        case (Cons c cs)
        have "scanstring acc (c # cs) = Inr (k, r)" using less.prems Cons by simp
        then have "r = cs \<or> (\<exists>a. scanstring a cs = Inr (k, r)) \<or>
            (\<exists>a. scanstring a (tl cs) = Inr (k, r)) \<or>
            (\<exists>a. scanstring a (drop 4 (tl cs)) = Inr (k, r)) \<or>
            (\<exists>a. scanstring a (drop 10 (tl cs)) = Inr (k, r))"
          unfolding scanstring.simps(2) [of acc c cs]
          by (auto split: if_splits list.splits option.splits simp del: scanstring.simps)
        moreover have "\<And>a t. scanstring a t = Inr (k, r) \<Longrightarrow> length t \<le> length cs
            \<Longrightarrow> length r < length s"
        proof -
          fix a t
          assume a: "scanstring a t = Inr (k, r)" and b: "length t \<le> length cs"
          have "length t < length s" using b Cons by simp
          from less.hyps [OF this a] show "length r < length s" using b Cons by simp
        qed
        ultimately show ?thesis using Cons by (auto simp del: scanstring.simps)
      qed
    qed
  qed
  have skip_le: "\<And>s. length (skip_whitespace s) \<le> length s"
    by (simp add: skip_whitespace_def length_dropWhile_le)
  show ?thesis
    apply (relation "measure (\<lambda>x. case x of
        Inl s \<Rightarrow> 2 * length s
      | Inr (Inl (acc, s)) \<Rightarrow> 2 * length s + 1
      | Inr (Inr (acc, s)) \<Rightarrow> 2 * length s + 1)")
    apply simp_all
    subgoal for c cs using skip_le [of cs] by simp
    subgoal for c cs using skip_le [of cs] by simp
    subgoal for s b x y x21 x22 using skip_le [of y] skip_le [of x22] by simp
    subgoal for s b x y
      using scanstring_length [of "[]" "tl s" x y] skip_le [of y]
        skip_le [of "tl (skip_whitespace y)"]
      by auto
    subgoal for s b x y ba xa ya x21 x22 using skip_le [of ya] skip_le [of x22] by simp
    done
qed

declare scan_once.simps [simp del] parse_array.simps [simp del] parse_object.simps [simp del]

text \<open>
  \<open>json.loads(s)\<close> for a \<open>str\<close>: a leading byte-order mark is refused, then one value
  surrounded by JSON whitespace must make up the whole text.
\<close>

definition loads :: "pystr \<Rightarrow> py_exception + pyval" where
  "loads s =
     (if startswith s [65279] then
        Inl (JSONDecodeError (pystr_of ''Unexpected UTF-8 BOM (decode using utf-8-sig)''))
      else
        (case scan_once (skip_whitespace s) of
           Inl e \<Rightarrow> Inl e
         | Inr (obj, r) \<Rightarrow>
             if skip_whitespace r \<noteq> [] then Inl (JSONDecodeError (pystr_of ''Extra data''))
             else Inr obj))"

section \<open>Recovering JSON from the model's reply\<close>

text \<open>
  \<open>safe_json_loads\<close>: trim; if the text starts with three backquotes (code point 96),
  strip all backquotes from both ends and, when both an opening and a closing brace
  occur, keep the text from the first \<open>{\<close> to the last \<open>}\<close>; decode what is left.
\<close>

definition safe_json_loads :: "pystr \<Rightarrow> py_exception + pyval" where
  "safe_json_loads payload =
     (let txt = strip payload in
      if startswith txt [96, 96, 96] then
        (let txt = strip_chars (\<lambda>c. c = 96) txt;
             first_brace = str_find txt 123;
             last_brace = str_rfind txt 125;
             txt = (if first_brace \<noteq> - 1 \<and> last_brace \<noteq> - 1
                    then str_slice txt first_brace (last_brace + 1) else txt)
         in loads txt)
      else loads txt)"

section \<open>Schemas\<close>

record QuizItem =
  pregunta :: pystr
  opciones :: "pystr list"
  respuesta :: int
  explanation :: pystr

record QuizPayload =
  texto :: pystr
  preguntas :: "QuizItem list"

record RSVPIn =
  topic :: pystr
  palabras_objetivo :: int
  num_preguntas :: int

record RSVPOut =
  id' :: pystr
  texto :: pystr
  palabras :: "pystr list"

record QuizIn =
  texto :: pystr
  num_preguntas :: int

record QuizOut =
  rsvp_session_id :: pystr
  preguntas :: "QuizItem list"

subsection \<open>Validation of a decoded value against a schema\<close>

text \<open>
  The validation library checks a decoded value field by field and reports every failed
  field. A field annotated \<open>str\<close> takes a string as it is and a field annotated
  \<open>int\<close> takes an integer as it is. Which values of another type the library converts
  (a string of digits for an \<open>int\<close>, a number for a \<open>str\<close>) depends on its version,
  which the repository does not fix: the two conversions are parameters of the model,
  consulted only for a value that is not already of the annotated type.
\<close>

record coercions =
  lax_str :: "pyval \<Rightarrow> pystr option"
  lax_int :: "pyval \<Rightarrow> int option"

definition validate_str :: "coercions \<Rightarrow> pystr list \<Rightarrow> pyval \<Rightarrow> verr list + pystr" where
  "validate_str lax loc v =
     (case v of
        PyStr s \<Rightarrow> Inr s
      | _ \<Rightarrow>
          (case lax_str lax v of
             Some s \<Rightarrow> Inr s
           | None \<Rightarrow> Inl [(loc, pystr_of ''Input should be a valid string'')]))"

definition validate_int :: "coercions \<Rightarrow> pystr list \<Rightarrow> pyval \<Rightarrow> verr list + int" where
  "validate_int lax loc v =
     (case v of
        PyInt i \<Rightarrow> Inr i
      | _ \<Rightarrow>
          (case lax_int lax v of
             Some i \<Rightarrow> Inr i
           | None \<Rightarrow> Inl [(loc, pystr_of ''Input should be a valid integer'')]))"

text \<open>The errors of a result, and the results of a list of validations put together:
  all values when none failed, all errors otherwise.\<close>

definition errors_of :: "verr list + 'a \<Rightarrow> verr list" where
  "errors_of r = (case r of Inl es \<Rightarrow> es | Inr _ \<Rightarrow> [])"

fun collect :: "(verr list + 'a) list \<Rightarrow> verr list + 'a list" where
  "collect [] = Inr []"
| "collect (r # rs) =
     (case r of
        Inl es \<Rightarrow> Inl (es @ errors_of (collect rs))
      | Inr x \<Rightarrow> (case collect rs of Inl es \<Rightarrow> Inl es | Inr xs \<Rightarrow> Inr (x # xs)))"

text \<open>A field annotated \<open>List[T]\<close>: a list whose elements validate as \<open>T\<close>, of any
  length. The location of an element is the location of the list and its index.\<close>

definition validate_list ::
  "(pystr list \<Rightarrow> pyval \<Rightarrow> verr list + 'a) \<Rightarrow> pystr list \<Rightarrow> pyval \<Rightarrow> verr list + 'a list" where
  "validate_list f loc v =
     (case v of
        PyList xs \<Rightarrow> collect (map (\<lambda>(i, x). f (loc @ [str_nat i]) x) (enumerate 0 xs))
      | _ \<Rightarrow> Inl [(loc, pystr_of ''Input should be a valid list'')])"

text \<open>A required field of a \<open>dict\<close>: missing is an error of its own.\<close>

definition required ::
  "(pystr \<times> pyval) list \<Rightarrow> pystr list \<Rightarrow> pystr \<Rightarrow> (pystr list \<Rightarrow> pyval \<Rightarrow> verr list + 'a)
   \<Rightarrow> verr list + 'a" where
  "required fs loc key f =
     (case map_of fs key of
        None \<Rightarrow> Inl [(loc @ [key], pystr_of ''Field required'')]
      | Some v \<Rightarrow> f (loc @ [key]) v)"

text \<open>An \<open>int\<close> field declared \<open>Field(default, ge=lo, le=hi)\<close>: the default when the
  key is absent, otherwise an integer within the bounds.\<close>

definition bounded_int ::
  "coercions \<Rightarrow> (pystr \<times> pyval) list \<Rightarrow> pystr list \<Rightarrow> pystr \<Rightarrow> int \<Rightarrow> int \<Rightarrow> int
   \<Rightarrow> verr list + int" where
  "bounded_int lax fs loc key dflt lo hi =
     (case map_of fs key of
        None \<Rightarrow> Inr dflt
      | Some v \<Rightarrow>
          (case validate_int lax (loc @ [key]) v of
             Inl es \<Rightarrow> Inl es
           | Inr i \<Rightarrow>
               if i < lo then
                 Inl [(loc @ [key],
                       pystr_of ''Input should be greater than or equal to '' @ str_int lo)]
               else if hi < i then
                 Inl [(loc @ [key],
                       pystr_of ''Input should be less than or equal to '' @ str_int hi)]
               else Inr i))"

definition validate_QuizItem :: "coercions \<Rightarrow> pystr list \<Rightarrow> pyval \<Rightarrow> verr list + QuizItem" where
  "validate_QuizItem lax loc v =
     (case v of
        PyDict fs \<Rightarrow>
          (let p = required fs loc (pystr_of ''pregunta'') (validate_str lax);
               os = required fs loc (pystr_of ''opciones'') (validate_list (validate_str lax));
               r = required fs loc (pystr_of ''respuesta'') (validate_int lax);
               e = required fs loc (pystr_of ''explanation'') (validate_str lax)
           in case (p, os, r, e) of
                (Inr p', Inr os', Inr r', Inr e') \<Rightarrow>
                  Inr \<lparr>pregunta = p', opciones = os', respuesta = r', explanation = e'\<rparr>
              | _ \<Rightarrow> Inl (errors_of p @ errors_of os @ errors_of r @ errors_of e))
      | _ \<Rightarrow>
          Inl [(loc, pystr_of ''Input should be a valid dictionary or instance of QuizItem'')])"

definition validate_QuizPayload ::
  "coercions \<Rightarrow> (pystr \<times> pyval) list \<Rightarrow> verr list + QuizPayload" where
  "validate_QuizPayload lax fs =
     (let t = required fs [] (pystr_of ''texto'') (validate_str lax);
          qs = required fs [] (pystr_of ''preguntas'') (validate_list (validate_QuizItem lax))
      in case (t, qs) of
           (Inr t', Inr qs') \<Rightarrow> Inr \<lparr>QuizPayload.texto = t', QuizPayload.preguntas = qs'\<rparr>
         | _ \<Rightarrow> Inl (errors_of t @ errors_of qs))"

definition type_name :: "pyval \<Rightarrow> pystr" where
  "type_name v =
     (case v of
        PyNone \<Rightarrow> pystr_of ''NoneType''
      | PyBool _ \<Rightarrow> pystr_of ''bool''
      | PyInt _ \<Rightarrow> pystr_of ''int''
      | PyFloat _ \<Rightarrow> pystr_of ''float''
      | PyStr _ \<Rightarrow> pystr_of ''str''
      | PyList _ \<Rightarrow> pystr_of ''list''
      | PyDict _ \<Rightarrow> pystr_of ''dict'')"

text \<open>
  \<open>QuizPayload(**data)\<close>: unpacking a value that is not a mapping raises
  \<open>TypeError\<close> before the model is built; extra keys are ignored.
\<close>

definition QuizPayload_init :: "coercions \<Rightarrow> pyval \<Rightarrow> py_exception + QuizPayload" where
  "QuizPayload_init lax data =
     (case data of
        PyDict fs \<Rightarrow>
          (case validate_QuizPayload lax fs of
             Inl es \<Rightarrow> Inl (ValidationError (pystr_of ''QuizPayload'') es)
           | Inr quiz \<Rightarrow> Inr quiz)
      | _ \<Rightarrow>
          Inl (TypeError (pystr_of ''QuizPayload() argument after ** must be a mapping, not '' @
                          type_name data)))"

text \<open>The request bodies: the web framework validates the decoded body against the
  declared model before it calls the handler.\<close>

definition validate_RSVPIn :: "coercions \<Rightarrow> pyval \<Rightarrow> verr list + RSVPIn" where
  "validate_RSVPIn lax body =
     (case body of
        PyDict fs \<Rightarrow>
          (let t = required fs [pystr_of ''body''] (pystr_of ''topic'') (validate_str lax);
               p = bounded_int lax fs [pystr_of ''body''] (pystr_of ''palabras_objetivo'')
                     250 80 800;
               n = bounded_int lax fs [pystr_of ''body''] (pystr_of ''num_preguntas'') 5 3 12
           in case (t, p, n) of
                (Inr t', Inr p', Inr n') \<Rightarrow>
                  Inr \<lparr>topic = t', palabras_objetivo = p', RSVPIn.num_preguntas = n'\<rparr>
              | _ \<Rightarrow> Inl (errors_of t @ errors_of p @ errors_of n))
      | _ \<Rightarrow> Inl [([pystr_of ''body''], pystr_of ''Input should be a valid dictionary'')])"

definition validate_QuizIn :: "coercions \<Rightarrow> pyval \<Rightarrow> verr list + QuizIn" where
  "validate_QuizIn lax body =
     (case body of
        PyDict fs \<Rightarrow>
          (let t = required fs [pystr_of ''body''] (pystr_of ''texto'') (validate_str lax);
               n = bounded_int lax fs [pystr_of ''body''] (pystr_of ''num_preguntas'') 5 3 12
           in case (t, n) of
                (Inr t', Inr n') \<Rightarrow> Inr \<lparr>QuizIn.texto = t', QuizIn.num_preguntas = n'\<rparr>
              | _ \<Rightarrow> Inl (errors_of t @ errors_of n))
      | _ \<Rightarrow> Inl [([pystr_of ''body''], pystr_of ''Input should be a valid dictionary'')])"

section \<open>The outside world\<close>

text \<open>
  What the handlers read and change outside their arguments: the hosted model
  (\<open>generate_content\<close>: the reply of the named model to the \<open>n\<close>-th prompt sent to it,
  \<open>None\<close> for no response object), the prompts sent so far, and the operating system's
  random source with the number of 16-byte draws taken from it. A response object is
  modelled by its candidates, and a candidate by the text its content holds: \<open>None\<close> for
  a candidate without text (blocked by the safety filter, cut off before any output, or
  holding a part that is not text).
\<close>

record GenerateContentResponse =
  candidates :: "pystr option list"

text \<open>
  The accessor \<open>resp.text\<close> of the client library: the text of the only candidate. It
  raises \<open>ValueError\<close> when there is no candidate, more than one, or one without text.
  The messages are shortened to their first sentence.
\<close>

definition text' :: "GenerateContentResponse \<Rightarrow> py_exception + pystr" where
  "text' resp =
     (case candidates resp of
        [] \<Rightarrow>
          Inl (ValueError (pystr_of
            ''Invalid operation: The response.parts quick accessor requires a single candidate''))
      | c # cs \<Rightarrow>
          if cs \<noteq> [] then
            Inl (ValueError (pystr_of
              ''Invalid operation: The response.parts quick accessor retrieves the parts for a single candidate''))
          else
            (case c of
               None \<Rightarrow>
                 Inl (ValueError (pystr_of
                   ''Invalid operation: The response.text quick accessor requires the response to contain a valid Part''))
             | Some t \<Rightarrow> Inr t))"

record world =
  generate_content :: "pystr \<Rightarrow> nat \<Rightarrow> pystr \<Rightarrow> GenerateContentResponse option"
  prompts :: "pystr list"
  urandom :: "nat \<Rightarrow> 128 word"
  drawn :: nat

definition MODEL_NAME :: pystr where
  "MODEL_NAME = pystr_of ''gemini-1.5-flash''"

subsection \<open>\<open>uuid.uuid4\<close> and its string form\<close>

definition uuid4 :: "world \<Rightarrow> 128 word \<times> world" where
  "uuid4 w =
     (let bits = urandom w (drawn w);
          bits = bits AND NOT (push_bit 48 0xc000);
          bits = bits OR push_bit 48 0x8000;
          bits = bits AND NOT (push_bit 64 0xf000);
          bits = bits OR push_bit 76 4
      in (bits, w\<lparr>drawn := Suc (drawn w)\<rparr>))"

definition hexdigit :: "nat \<Rightarrow> nat" where
  "hexdigit n = (if n < 10 then 48 + n else 87 + n)"

definition hex32 :: "128 word \<Rightarrow> pystr" where
  "hex32 u = map (\<lambda>i. hexdigit (unat (drop_bit (4 * (31 - i)) u AND 15))) [0..<32]"

definition str_uuid :: "128 word \<Rightarrow> pystr" where
  "str_uuid u =
     (let h = hex32 u
      in take 8 h @ [45] @ take 4 (drop 8 h) @ [45] @ take 4 (drop 12 h) @ [45] @
         take 4 (drop 16 h) @ [45] @ drop 20 h)"

subsection \<open>\<open>call_gemini\<close>\<close>

text \<open>
  The result of a handler is the value it returns or the exception that leaves it. The
  check of \<open>call_gemini\<close> raises the 502 error for no response and for an empty list of
  candidates; the text accessor is read after the check and outside any \<open>try\<close> block,
  so its \<open>ValueError\<close> leaves \<open>call_gemini\<close> and the handler that called it.
\<close>

definition call_gemini :: "pystr \<Rightarrow> world \<Rightarrow> (py_exception + pystr) \<times> world" where
  "call_gemini prompt w =
     (let resp = generate_content w MODEL_NAME (length (prompts w)) prompt;
          w' = w\<lparr>prompts := prompts w @ [prompt]\<rparr>
      in case resp of
           None \<Rightarrow>
             (Inl (HTTPException 502
                     (pystr_of ''Gemini no devolvi'' @ [243] @ pystr_of '' contenido'')), w')
         | Some r \<Rightarrow>
             if candidates r = [] then
               (Inl (HTTPException 502
                       (pystr_of ''Gemini no devolvi'' @ [243] @ pystr_of '' contenido'')), w')
             else
               (case text' r of
                  Inl e \<Rightarrow> (Inl e, w')
                | Inr t \<Rightarrow> (Inr (strip t), w')))"

section \<open>Prompts\<close>

text \<open>The two templates after \<open>str.format\<close>, as functions of the fields they
  interpolate.\<close>

definition PROMPT_TEXTO :: "pystr \<Rightarrow> int \<Rightarrow> pystr" where
  "PROMPT_TEXTO topic_arg palabras_arg =
     pystr_of ''Eres un redactor claro y riguroso.'' @ [10] @
     pystr_of ''Escribe un texto informativo en espa'' @ [241] @
       pystr_of ''ol sobre el tema: '' @ [34] @ topic_arg @ [34] @ pystr_of ''.'' @ [10] @
     pystr_of ''Requisitos:'' @ [10] @
     pystr_of ''- Extensi'' @ [243] @ pystr_of ''n aproximada: '' @ str_int palabras_arg @
       pystr_of '' palabras ('' @ [177] @ pystr_of ''10%).'' @ [10] @
     pystr_of ''- Lenguaje sencillo pero preciso; p'' @ [225] @ pystr_of ''rrafos cortos.'' @
       [10] @
     pystr_of ''- Incluye contexto, idea principal y 2'' @ [8211] @
       pystr_of ''3 detalles clave.'' @ [10, 10] @
     pystr_of ''Responde SOLO con el texto, sin prefijos, sin comillas.'' @ [10]"

definition PROMPT_QUIZ :: "pystr \<Rightarrow> int \<Rightarrow> pystr" where
  "PROMPT_QUIZ texto_base num_arg =
     pystr_of ''Eres un generador de preguntas tipo test (opci'' @ [243] @ pystr_of ''n m'' @
       [250] @ pystr_of ''ltiple) en espa'' @ [241] @ pystr_of ''ol.'' @ [10] @
     pystr_of ''Debes devolver JSON **V'' @ [193] @
       pystr_of ''LIDO** con este esquema EXACTO:'' @ [10, 10] @
     pystr_of ''{'' @ [10] @
     pystr_of ''  '' @ [34] @ pystr_of ''texto'' @ [34] @ pystr_of '': '' @ [34] @
       pystr_of ''<resumen de 1-2 frases del tema>'' @ [34] @ pystr_of '','' @ [10] @
     pystr_of ''  '' @ [34] @ pystr_of ''preguntas'' @ [34] @ pystr_of '': ['' @ [10] @
     pystr_of ''    {'' @ [10] @
     pystr_of ''      '' @ [34] @ pystr_of ''pregunta'' @ [34] @ pystr_of '': '' @ [34] @
       pystr_of ''<enunciado claro>'' @ [34] @ pystr_of '','' @ [10] @
     pystr_of ''      '' @ [34] @ pystr_of ''opciones'' @ [34] @ pystr_of '': ['' @ [34] @
       pystr_of ''A'' @ [34] @ pystr_of '', '' @ [34] @ pystr_of ''B'' @ [34] @ pystr_of '', '' @
       [34] @ pystr_of ''C'' @ [34] @ pystr_of '', '' @ [34] @ pystr_of ''D'' @ [34] @
       pystr_of ''],'' @ [10] @
     pystr_of ''      '' @ [34] @ pystr_of ''respuesta'' @ [34] @ pystr_of '': 0,   // '' @
       [237] @ pystr_of ''ndice de la opci'' @ [243] @ pystr_of ''n correcta'' @ [10] @
     pystr_of ''      '' @ [34] @ pystr_of ''explanation'' @ [34] @ pystr_of '': '' @ [34] @
       pystr_of ''justificaci'' @ [243] @ pystr_of ''n breve y verificable'' @ [34, 10] @
     pystr_of ''    }'' @ [10] @
     pystr_of ''  ]'' @ [10] @
     pystr_of ''}'' @ [10, 10] @
     pystr_of ''Reglas:'' @ [10] @
     pystr_of ''- Genera exactamente '' @ str_int num_arg @ pystr_of '' preguntas.'' @
       [10] @
     pystr_of ''- Una sola respuesta correcta por pregunta.'' @ [10] @
     pystr_of ''- Las opciones deben ser plausibles pero s'' @ [243] @
       pystr_of ''lo una correcta.'' @ [10] @
     pystr_of ''- Las preguntas deben poder resolverse leyendo el texto dado.'' @ [10] @
     pystr_of ''- El JSON debe parsear sin errores.'' @ [10, 10] @
     pystr_of ''TEXTO BASE ('' @ [250] @ pystr_of ''sa-lo como fuente):'' @ [10, 34, 34, 34] @
     texto_base @ [34, 34, 34, 10]"

section \<open>Endpoints\<close>

definition generate_rsvp :: "RSVPIn \<Rightarrow> world \<Rightarrow> (py_exception + RSVPOut) \<times> world" where
  "generate_rsvp payload w =
     (let prompt = PROMPT_TEXTO (topic payload) (palabras_objetivo payload)
      in case call_gemini prompt w of
           (Inl e, w1) \<Rightarrow> (Inl e, w1)
         | (Inr texto', w1) \<Rightarrow>
             (let palabras' = split_ws texto'
              in case uuid4 w1 of
                   (u, w2) \<Rightarrow>
                     (Inr \<lparr>id' = str_uuid u, RSVPOut.texto = texto', palabras = palabras'\<rparr>,
                      w2)))"

definition generate_quiz ::
  "coercions \<Rightarrow> QuizIn \<Rightarrow> world \<Rightarrow> (py_exception + QuizOut) \<times> world" where
  "generate_quiz lax payload w =
     (let prompt = PROMPT_QUIZ (QuizIn.texto payload) (QuizIn.num_preguntas payload)
      in case call_gemini prompt w of
           (Inl e, w1) \<Rightarrow> (Inl e, w1)
         | (Inr raw, w1) \<Rightarrow>
             (case safe_json_loads raw of
                Inl e \<Rightarrow>
                  (Inl (HTTPException 502
                          (pystr_of ''Respuesta de Gemini no es JSON v'' @ [225] @
                           pystr_of ''lido: '' @ str_exception e)), w1)
              | Inr data \<Rightarrow>
                  (case QuizPayload_init lax data of
                     Inl e \<Rightarrow>
                       (Inl (HTTPException 422
                               (pystr_of ''Estructura de quiz inv'' @ [225] @
                                pystr_of ''lida: '' @ str_exception e)), w1)
                   | Inr quiz \<Rightarrow>
                       (case uuid4 w1 of
                          (u, w2) \<Rightarrow>
                            (Inr \<lparr>rsvp_session_id = str_uuid u,
                                  QuizOut.preguntas = QuizPayload.preguntas quiz\<rparr>, w2)))))"

text \<open>
  The two routes as the web framework serves them: the decoded request body is validated
  against the declared input model; a body that fails is answered with status 422 and
  the handler is not called. An \<open>HTTPException\<close> that leaves the handler is answered
  with its status code, any other exception with status 500.
\<close>

datatype 'a response =
    Success 'a
  | Failure py_exception
  | RequestValidationError "verr list"

definition status :: "'a response \<Rightarrow> int" where
  "status r =
     (case r of
        Success _ \<Rightarrow> 200
      | Failure e \<Rightarrow> (case e of HTTPException code _ \<Rightarrow> code | _ \<Rightarrow> 500)
      | RequestValidationError _ \<Rightarrow> 422)"

definition respond :: "(py_exception + 'a) \<times> world \<Rightarrow> 'a response \<times> world" where
  "respond r = (case r of (Inl e, w) \<Rightarrow> (Failure e, w) | (Inr x, w) \<Rightarrow> (Success x, w))"

definition api_rsvp :: "coercions \<Rightarrow> pyval \<Rightarrow> world \<Rightarrow> RSVPOut response \<times> world" where
  "api_rsvp lax body w =
     (case validate_RSVPIn lax body of
        Inl es \<Rightarrow> (RequestValidationError es, w)
      | Inr payload \<Rightarrow> respond (generate_rsvp payload w))"

definition api_quiz :: "coercions \<Rightarrow> pyval \<Rightarrow> world \<Rightarrow> QuizOut response \<times> world" where
  "api_quiz lax body w =
     (case validate_QuizIn lax body of
        Inl es \<Rightarrow> (RequestValidationError es, w)
      | Inr payload \<Rightarrow> respond (generate_quiz lax payload w))"

section \<open>Notions the properties are stated with\<close>

text \<open>The characters with which the decoder lets a JSON value begin: a quote, a brace, a
  bracket, a minus sign, a digit, and the first letters of \<open>null\<close>, \<open>true\<close>,
  \<open>false\<close>, \<open>NaN\<close> and \<open>Infinity\<close>.\<close>

definition value_start :: "nat \<Rightarrow> bool" where
  "value_start c \<longleftrightarrow>
     c = 34 \<or> c = 123 \<or> c = 91 \<or> c = 45 \<or> isdigit c \<or>
     c = 110 \<or> c = 116 \<or> c = 102 \<or> c = 78 \<or> c = 73"

text \<open>A decoded question object that carries the fields of a quiz item with exactly the
  annotated types: strings for \<open>pregunta\<close> and \<open>explanation\<close>, a list of strings for
  \<open>opciones\<close>, an integer for \<open>respuesta\<close>. Other keys may be present.\<close>

definition encodes :: "(pystr \<times> pyval) list \<Rightarrow> QuizItem \<Rightarrow> bool" where
  "encodes fs q \<longleftrightarrow>
     map_of fs (pystr_of ''pregunta'') = Some (PyStr (pregunta q)) \<and>
     map_of fs (pystr_of ''opciones'') = Some (PyList (map PyStr (opciones q))) \<and>
     map_of fs (pystr_of ''respuesta'') = Some (PyInt (respuesta q)) \<and>
     map_of fs (pystr_of ''explanation'') = Some (PyStr (explanation q))"

definition question_object :: "pyval \<Rightarrow> QuizItem \<Rightarrow> bool" where
  "question_object v q \<longleftrightarrow> (case v of PyDict fs \<Rightarrow> encodes fs q | _ \<Rightarrow> False)"

text \<open>A run of two or more spaces somewhere in a text.\<close>

fun multi_space_run :: "pystr \<Rightarrow> bool" where
  "multi_space_run (a # b # cs) = ((a = 32 \<and> b = 32) \<or> multi_space_run (b # cs))"
| "multi_space_run _ = False"

text \<open>
  A text cut into words and the gaps between them: \<open>weave g0 [(w1, g1), ..., (wn, gn)]\<close>
  is \<open>g0 w1 g1 ... wn gn\<close>. It is a tokenization when the gaps consist of whitespace,
  the words are non-empty and free of whitespace, and every gap between two words is
  non-empty.
\<close>

definition weave :: "pystr \<Rightarrow> (pystr \<times> pystr) list \<Rightarrow> pystr" where
  "weave g0 wgs = g0 @ concat (map (\<lambda>(w, g). w @ g) wgs)"

definition tokenization :: "pystr \<Rightarrow> (pystr \<times> pystr) list \<Rightarrow> bool" where
  "tokenization g0 wgs \<longleftrightarrow>
     (\<forall>c \<in> set g0. isspace c) \<and>
     (\<forall>(w, g) \<in> set wgs. w \<noteq> [] \<and> (\<forall>c \<in> set w. \<not> isspace c) \<and> (\<forall>c \<in> set g. isspace c)) \<and>
     (\<forall>(w, g) \<in> set (butlast wgs). g \<noteq> [])"

section \<open>Concrete instances\<close>

text \<open>
  A world whose model gives the same reply to every prompt, with an empty prompt log and
  a random source of zeros; a reply with one candidate and its text; a reply with one
  candidate and no text, as the safety filter leaves it; the validation library without
  any conversion; and the request of the specification's end-to-end example.
\<close>

definition stub_world :: "GenerateContentResponse option \<Rightarrow> world" where
  "stub_world r =
     \<lparr>generate_content = (\<lambda>model n prompt. r), prompts = [], urandom = (\<lambda>n. 0), drawn = 0\<rparr>"

definition reply :: "pystr \<Rightarrow> GenerateContentResponse option" where
  "reply s = Some \<lparr>candidates = [Some s]\<rparr>"

definition blocked_reply :: "GenerateContentResponse option" where
  "blocked_reply = Some \<lparr>candidates = [None]\<rparr>"

text \<open>Any world, with its model replaced by one that answers every prompt with \<open>s\<close>.\<close>

definition with_reply :: "world \<Rightarrow> pystr \<Rightarrow> world" where
  "with_reply w s = w\<lparr>generate_content := (\<lambda>model n prompt. reply s)\<rparr>"

definition no_coercions :: coercions where
  "no_coercions = \<lparr>lax_str = (\<lambda>v. None), lax_int = (\<lambda>v. None)\<rparr>"

definition ocean_request :: RSVPIn where
  "ocean_request =
     \<lparr>topic = pystr_of ''ocean currents'', palabras_objetivo = 200, RSVPIn.num_preguntas = 4\<rparr>"

definition quiz_request :: QuizIn where
  "quiz_request = \<lparr>QuizIn.texto = pystr_of ''ocean currents'', QuizIn.num_preguntas = 3\<rparr>"

text \<open>
  Two replies of the model. \<open>sample_quiz\<close> is
  \<open>{"texto":"t","preguntas":[Q, Q, Q]}\<close> with \<open>Q\<close> the question object
  \<open>{"pregunta":"q","opciones":["a","b"],"respuesta":1,"explanation":"e"}\<close>, and
  \<open>sample_question\<close> is the quiz item \<open>Q\<close> stands for, \<open>sample_question_object\<close>
  the value \<open>Q\<close> decodes to. \<open>empty_options_quiz\<close> is
  \<open>{"texto":"t","preguntas":[{"pregunta":"q","opciones":[],"respuesta":0,"explanation":"e"}]}\<close>,
  with its one question as an item and as a decoded value.
\<close>

definition sample_quiz :: pystr where
  "sample_quiz =
     pystr_of ''{'' @ [34] @ pystr_of ''texto'' @ [34] @ pystr_of '':'' @ [34] @
     pystr_of ''t'' @ [34] @ pystr_of '','' @ [34] @ pystr_of ''preguntas'' @ [34] @
     pystr_of '':[{'' @ [34] @ pystr_of ''pregunta'' @ [34] @ pystr_of '':'' @ [34] @
     pystr_of ''q'' @ [34] @ pystr_of '','' @ [34] @ pystr_of ''opciones'' @ [34] @
     pystr_of '':['' @ [34] @ pystr_of ''a'' @ [34] @ pystr_of '','' @ [34] @ pystr_of ''b'' @
     [34] @ pystr_of ''],'' @ [34] @ pystr_of ''respuesta'' @ [34] @ pystr_of '':1,'' @ [34] @
     pystr_of ''explanation'' @ [34] @ pystr_of '':'' @ [34] @ pystr_of ''e'' @ [34] @
     pystr_of ''}, {'' @ [34] @ pystr_of ''pregunta'' @ [34] @ pystr_of '':'' @ [34] @
     pystr_of ''q'' @ [34] @ pystr_of '','' @ [34] @ pystr_of ''opciones'' @ [34] @
     pystr_of '':['' @ [34] @ pystr_of ''a'' @ [34] @ pystr_of '','' @ [34] @ pystr_of ''b'' @
     [34] @ pystr_of ''],'' @ [34] @ pystr_of ''respuesta'' @ [34] @ pystr_of '':1,'' @ [34] @
     pystr_of ''explanation'' @ [34] @ pystr_of '':'' @ [34] @ pystr_of ''e'' @ [34] @
     pystr_of ''}, {'' @ [34] @ pystr_of ''pregunta'' @ [34] @ pystr_of '':'' @ [34] @
     pystr_of ''q'' @ [34] @ pystr_of '','' @ [34] @ pystr_of ''opciones'' @ [34] @
     pystr_of '':['' @ [34] @ pystr_of ''a'' @ [34] @ pystr_of '','' @ [34] @ pystr_of ''b'' @
     [34] @ pystr_of ''],'' @ [34] @ pystr_of ''respuesta'' @ [34] @ pystr_of '':1,'' @ [34] @
     pystr_of ''explanation'' @ [34] @ pystr_of '':'' @ [34] @ pystr_of ''e'' @ [34] @
     pystr_of ''}]}''"

definition sample_question :: QuizItem where
  "sample_question = \<lparr>pregunta = [113], opciones = [[97], [98]], respuesta = 1, explanation = [101]\<rparr>"

definition sample_question_object :: pyval where
  "sample_question_object =
     PyDict
       [(pystr_of ''pregunta'', PyStr [113]),
        (pystr_of ''opciones'', PyList [PyStr [97], PyStr [98]]),
        (pystr_of ''respuesta'', PyInt 1),
        (pystr_of ''explanation'', PyStr [101])]"

definition empty_options_quiz :: pystr where
  "empty_options_quiz =
     pystr_of ''{'' @ [34] @ pystr_of ''texto'' @ [34] @ pystr_of '':'' @ [34] @
     pystr_of ''t'' @ [34] @ pystr_of '','' @ [34] @ pystr_of ''preguntas'' @ [34] @
     pystr_of '':[{'' @ [34] @ pystr_of ''pregunta'' @ [34] @ pystr_of '':'' @ [34] @
     pystr_of ''q'' @ [34] @ pystr_of '','' @ [34] @ pystr_of ''opciones'' @ [34] @
     pystr_of '':[],'' @ [34] @ pystr_of ''respuesta'' @ [34] @ pystr_of '':0,'' @ [34] @
     pystr_of ''explanation'' @ [34] @ pystr_of '':'' @ [34] @ pystr_of ''e'' @ [34] @
     pystr_of ''}]}''"

definition empty_options_question :: QuizItem where
  "empty_options_question = \<lparr>pregunta = [113], opciones = [], respuesta = 0, explanation = [101]\<rparr>"

definition empty_options_object :: pyval where
  "empty_options_object =
     PyDict
       [(pystr_of ''pregunta'', PyStr [113]),
        (pystr_of ''opciones'', PyList []),
        (pystr_of ''respuesta'', PyInt 0),
        (pystr_of ''explanation'', PyStr [101])]"

section \<open>Whitespace splitting\<close>

lemma split_ws_all_space:
  assumes "\<forall>c \<in> set s. isspace c"
  shows "split_ws s = []"
proof -
  have h: "dropWhile isspace s = []" using assms by simp
  show ?thesis by (subst split_ws.simps) (simp only: h list.case)
qed

lemma split_ws_Nil [simp]: "split_ws [] = []"
  by (simp add: split_ws_all_space)

lemma split_ws_space: "isspace c \<Longrightarrow> split_ws (c # s) = split_ws s"
  by (subst split_ws.simps, subst (2) split_ws.simps) simp

lemma split_ws_word:
  "\<not> isspace c \<Longrightarrow>
   split_ws (c # s) =
     (c # takeWhile (\<lambda>x. \<not> isspace x) s) # split_ws (dropWhile (\<lambda>x. \<not> isspace x) s)"
  by (subst split_ws.simps) simp

lemma split_ws_skip: "\<forall>c \<in> set g. isspace c \<Longrightarrow> split_ws (g @ s) = split_ws s"
  by (induction g) (simp_all add: split_ws_space)

lemma split_ws_words:
  "w \<in> set (split_ws s) \<Longrightarrow> w \<noteq> [] \<and> (\<forall>c \<in> set w. \<not> isspace c)"
proof (induction s arbitrary: w rule: split_ws.induct)
  case (1 s)
  show ?case
  proof (cases "dropWhile isspace s")
    case Nil
    with "1.prems" show ?thesis by (simp add: split_ws.simps [of s])
  next
    case (Cons c cs)
    have c: "\<not> isspace c" using hd_dropWhile [of isspace s] Cons by simp
    from "1.prems" Cons have
      "w = c # takeWhile (\<lambda>x. \<not> isspace x) cs \<or> w \<in> set (split_ws (dropWhile (\<lambda>x. \<not> isspace x) cs))"
      by (simp add: split_ws.simps [of s])
    then show ?thesis
    proof
      assume "w = c # takeWhile (\<lambda>x. \<not> isspace x) cs"
      then show ?thesis using c by (auto dest: set_takeWhileD)
    next
      assume "w \<in> set (split_ws (dropWhile (\<lambda>x. \<not> isspace x) cs))"
      then show ?thesis using "1.IH" [OF Cons] by blast
    qed
  qed
qed

lemma split_ws_trailing:
  "\<forall>c \<in> set g. isspace c \<Longrightarrow> split_ws (u @ g) = split_ws u"
proof (induction u rule: split_ws.induct)
  case (1 u)
  show ?case
  proof (cases "dropWhile isspace u")
    case Nil
    then have "\<forall>c \<in> set (u @ g). isspace c" using "1.prems" by auto
    moreover have "\<forall>c \<in> set u. isspace c" using Nil by simp
    ultimately show ?thesis by (simp only: split_ws_all_space)
  next
    case (Cons c cs)
    let ?ns = "\<lambda>x. \<not> isspace x"
    have "dropWhile isspace u \<noteq> []" using Cons by simp
    then have "\<not> (\<forall>x \<in> set u. isspace x)" by simp
    then have "dropWhile isspace (u @ g) = dropWhile isspace u @ g"
      by (auto simp: dropWhile_append)
    then have ug: "dropWhile isspace (u @ g) = c # (cs @ g)"
      by (simp only: Cons append_Cons)
    have tg: "takeWhile ?ns g = []" "dropWhile ?ns g = g"
      using "1.prems" by (cases g; simp)+
    have tk: "takeWhile ?ns (cs @ g) = takeWhile ?ns cs"
    proof (cases "\<forall>x \<in> set cs. ?ns x")
      case True
      then have a: "takeWhile ?ns cs = cs" by simp
      have "takeWhile ?ns (cs @ g) = cs @ takeWhile ?ns g"
        using True by simp
      then show ?thesis by (simp only: a tg append_Nil2)
    next
      case False
      then show ?thesis by (auto simp: takeWhile_append)
    qed
    have rest: "split_ws (dropWhile ?ns (cs @ g)) = split_ws (dropWhile ?ns cs)"
    proof (cases "\<forall>x \<in> set cs. ?ns x")
      case True
      then have d: "dropWhile ?ns (cs @ g) = g" "dropWhile ?ns cs = []"
        using tg by (simp_all add: dropWhile_append)
      show ?thesis unfolding d using "1.prems" by (simp add: split_ws_all_space)
    next
      case False
      then have "dropWhile ?ns (cs @ g) = dropWhile ?ns cs @ g"
        by (auto simp: dropWhile_append)
      then show ?thesis using "1.IH" [OF Cons "1.prems"] by simp
    qed
    show ?thesis
      by (subst split_ws.simps, subst (2) split_ws.simps) (simp only: ug Cons list.case tk rest)
  qed
qed

lemma strip_decompose:
  "\<exists>g h. (\<forall>c \<in> set g. isspace c) \<and> (\<forall>c \<in> set h. isspace c) \<and> s = g @ strip s @ h"
proof -
  let ?t = "dropWhile isspace s"
  have 1: "s = takeWhile isspace s @ ?t" by simp
  have 2: "rev (rev ?t) = rev (takeWhile isspace (rev ?t) @ dropWhile isspace (rev ?t))"
    by (simp only: takeWhile_dropWhile_id)
  have 3: "?t = strip s @ rev (takeWhile isspace (rev ?t))"
    using 2 by (simp only: rev_rev_ident rev_append strip_def strip_chars_def)
  have "s = takeWhile isspace s @ strip s @ rev (takeWhile isspace (rev ?t))"
    using 1 3 by metis
  moreover have "\<forall>c \<in> set (takeWhile isspace s). isspace c" by (auto dest: set_takeWhileD)
  moreover have "\<forall>c \<in> set (rev (takeWhile isspace (rev ?t))). isspace c"
    by (auto dest: set_takeWhileD)
  ultimately show ?thesis by blast
qed

lemma split_ws_strip: "split_ws (strip s) = split_ws s"
proof -
  obtain g h where gh: "\<forall>c \<in> set g. isspace c" "\<forall>c \<in> set h. isspace c" "s = g @ strip s @ h"
    using strip_decompose by blast
  have "split_ws s = split_ws (g @ strip s @ h)" using gh(3) by simp
  also have "\<dots> = split_ws (strip s @ h)" using gh(1) by (rule split_ws_skip)
  also have "\<dots> = split_ws (strip s)" using gh(2) by (rule split_ws_trailing)
  finally show ?thesis by simp
qed

lemma weave_Cons: "weave g0 ((w, g) # wgs) = g0 @ w @ weave g wgs"
  by (simp add: weave_def)

lemma tokenization_Cons:
  "tokenization g0 ((w, g) # wgs) \<longleftrightarrow>
     (\<forall>c \<in> set g0. isspace c) \<and> w \<noteq> [] \<and> (\<forall>c \<in> set w. \<not> isspace c) \<and>
     (wgs \<noteq> [] \<longrightarrow> g \<noteq> []) \<and> tokenization g wgs"
  by (auto simp: tokenization_def)

lemma split_ws_weave:
  "tokenization g0 wgs \<Longrightarrow> split_ws (weave g0 wgs) = map fst wgs"
proof (induction wgs arbitrary: g0)
  case Nil
  then show ?case by (simp add: weave_def tokenization_def split_ws_all_space)
next
  case (Cons p wgs)
  obtain w g where p: "p = (w, g)" by (cases p)
  let ?ns = "\<lambda>x. \<not> isspace x"
  let ?X = "weave g wgs"
  from Cons.prems p have g0: "\<forall>c \<in> set g0. isspace c" and w: "w \<noteq> []" "\<forall>c \<in> set w. ?ns c"
    and gne: "wgs \<noteq> [] \<longrightarrow> g \<noteq> []" and tok: "tokenization g wgs"
    by (simp_all add: tokenization_Cons)
  from tok have gsp: "\<forall>c \<in> set g. isspace c" by (cases wgs) (auto simp: tokenization_def)
  obtain c w' where cw: "w = c # w'" using w(1) by (cases w) auto
  have X: "?X = [] \<or> isspace (hd ?X)"
  proof (cases g)
    case Nil
    then have "wgs = []" using gne by blast
    then show ?thesis using Nil by (simp add: weave_def)
  next
    case (Cons a g')
    then show ?thesis using gsp by (simp add: weave_def)
  qed
  then have tX: "takeWhile ?ns ?X = []" "dropWhile ?ns ?X = ?X"
    by (cases ?X; auto)+
  have "split_ws (weave g0 (p # wgs)) = split_ws (w @ ?X)"
    unfolding p weave_Cons using g0 by (rule split_ws_skip)
  also have "\<dots> = (c # takeWhile ?ns (w' @ ?X)) # split_ws (dropWhile ?ns (w' @ ?X))"
    unfolding cw using w(2) cw by (simp add: split_ws_word)
  also have "takeWhile ?ns (w' @ ?X) = w'" using w(2) cw tX by (simp add: takeWhile_append)
  also have "dropWhile ?ns (w' @ ?X) = ?X" using w(2) cw tX by (simp add: dropWhile_append)
  also have "split_ws ?X = map fst wgs" using tok by (rule Cons.IH)
  finally show ?case using p cw by simp
qed

lemma weave_split_ws:
  "\<exists>g0 wgs. tokenization g0 wgs \<and> weave g0 wgs = s \<and> map fst wgs = split_ws s"
proof (induction s rule: split_ws.induct)
  case (1 s)
  let ?ns = "\<lambda>x. \<not> isspace x"
  show ?case
  proof (cases "dropWhile isspace s")
    case Nil
    then have sp: "\<forall>c \<in> set s. isspace c" by simp
    then have "tokenization s [] \<and> weave s [] = s \<and> map fst [] = split_ws s"
      by (simp add: tokenization_def weave_def split_ws_all_space)
    then show ?thesis by blast
  next
    case (Cons c cs)
    let ?w = "c # takeWhile ?ns cs"
    let ?r = "dropWhile ?ns cs"
    from "1.IH" [OF Cons] obtain g wgs where
      tok: "tokenization g wgs" and wv: "weave g wgs = ?r" and ws: "map fst wgs = split_ws ?r"
      by blast
    have c: "\<not> isspace c" using hd_dropWhile [of isspace s] Cons by simp
    have s: "s = takeWhile isspace s @ ?w @ ?r"
      using takeWhile_dropWhile_id [of isspace s] Cons by simp
    have r: "?r = [] \<or> isspace (hd ?r)"
      using hd_dropWhile [of ?ns cs] by auto
    have gne: "wgs \<noteq> [] \<longrightarrow> g \<noteq> []"
    proof (intro impI notI)
      assume ne: "wgs \<noteq> []" and g: "g = []"
      then obtain w1 g1 rest where wgs: "wgs = (w1, g1) # rest" by (cases wgs) auto
      with tok have w1: "w1 \<noteq> []" "\<forall>x \<in> set w1. \<not> isspace x" by (simp_all add: tokenization_Cons)
      from wv g wgs have "?r = w1 @ weave g1 rest" by (simp add: weave_Cons)
      with w1 have "?r \<noteq> [] \<and> \<not> isspace (hd ?r)" by (cases w1) auto
      with r show False by blast
    qed
    have "tokenization (takeWhile isspace s) ((?w, g) # wgs)"
      using tok c gne by (auto simp: tokenization_Cons dest: set_takeWhileD)
    moreover have "weave (takeWhile isspace s) ((?w, g) # wgs) = s"
      using s wv by (simp add: weave_Cons)
    moreover have "map fst ((?w, g) # wgs) = split_ws s"
      using ws Cons by (simp add: split_ws.simps [of s])
    ultimately show ?thesis by blast
  qed
qed

lemma strip_edges:
  "strip s = [] \<or> (\<not> isspace (hd (strip s)) \<and> \<not> isspace (last (strip s)))"
proof (cases "strip s = []")
  case True
  then show ?thesis by simp
next
  case False
  let ?t = "dropWhile isspace s"
  let ?u = "dropWhile isspace (rev ?t)"
  have u: "strip s = rev ?u" by (simp add: strip_def strip_chars_def)
  then have une: "?u \<noteq> []" using False by simp
  have l: "\<not> isspace (hd ?u)" using hd_dropWhile [OF une] .
  have "last (strip s) = hd ?u" using u une by (simp add: last_rev)
  then have a: "\<not> isspace (last (strip s))" using l by simp
  have tne: "?t \<noteq> []" using une by (auto dest: set_dropWhileD)
  have "\<not> isspace (hd ?t)" using hd_dropWhile [OF tne] .
  have "hd (strip s) = last ?u" using u une by (simp add: hd_rev)
  also have "\<dots> = last (takeWhile isspace (rev ?t) @ ?u)"
    by (rule last_appendR [symmetric, OF une])
  also have "\<dots> = last (rev ?t)" by (simp only: takeWhile_dropWhile_id)
  also have "\<dots> = hd ?t" using tne by (simp add: last_rev)
  finally have "\<not> isspace (hd (strip s))" using hd_dropWhile [OF tne] by simp
  with a show ?thesis by blast
qed

lemma join_Cons: "ws \<noteq> [] \<Longrightarrow> join sep (w # ws) = w @ sep @ join sep ws"
  by (cases ws) simp_all

lemma multi_space_run_append: "multi_space_run ys \<Longrightarrow> multi_space_run (xs @ ys)"
proof (induction xs)
  case Nil
  then show ?case by simp
next
  case (Cons x xs)
  then have "multi_space_run (xs @ ys)" by simp
  then show ?case by (cases "xs @ ys") auto
qed

lemma join_split_ws:
  assumes "\<forall>c \<in> set s. isspace c \<longrightarrow> c = 32"
    and "\<not> multi_space_run s"
    and "s = [] \<or> \<not> isspace (last s)"
  shows "join [32] (split_ws s) = dropWhile isspace s"
  using assms
proof (induction s rule: split_ws.induct)
  case (1 s)
  let ?ns = "\<lambda>x. \<not> isspace x"
  show ?case
  proof (cases "dropWhile isspace s")
    case Nil
    then have a: "split_ws s = []" by (simp add: split_ws_all_space)
    show ?thesis unfolding a Nil by simp
  next
    case (Cons c cs)
    let ?tw = "takeWhile ?ns cs"
    let ?r = "dropWhile ?ns cs"
    have sw: "split_ws s = (c # ?tw) # split_ws ?r"
      using Cons by (simp add: split_ws.simps [of s])
    have s: "s = (takeWhile isspace s @ c # ?tw) @ ?r"
      using takeWhile_dropWhile_id [of isspace s] Cons by simp
    have sp: "\<forall>x \<in> set ?r. isspace x \<longrightarrow> x = 32"
      using "1.prems"(1) s by (metis Un_iff set_append)
    have nm: "\<not> multi_space_run ?r"
      using "1.prems"(2) s multi_space_run_append by metis
    show ?thesis
    proof (cases ?r)
      case Nil
      then have "?tw = cs" using takeWhile_dropWhile_id [of ?ns cs] by simp
      then show ?thesis using sw Nil Cons by simp
    next
      case r: (Cons x r')
      have x: "isspace x" using hd_dropWhile [of ?ns cs] r by simp
      then have x32: "x = 32" using sp r by simp
      have lr: "\<not> isspace (last ?r)"
        using "1.prems"(3) s r by (metis append_is_Nil_conv last_appendR list.distinct(1))
      then have r'ne: "r' \<noteq> []" using r x by auto
      then obtain y r'' where r': "r' = y # r''" by (cases r') auto
      have "y \<noteq> 32" using nm r x32 r' by auto
      moreover have "isspace y \<longrightarrow> y = 32" using sp r r' by simp
      ultimately have y: "\<not> isspace y" by blast
      have dr: "dropWhile isspace ?r = r'" using r x r' y by simp
      have lr': "?r = [] \<or> \<not> isspace (last ?r)" using lr by simp
      have ih: "join [32] (split_ws ?r) = r'"
        using "1.IH" [OF Cons sp nm lr'] dr by simp
      have "split_ws ?r = split_ws r'" using r x by (simp add: split_ws_space)
      also have "\<dots> \<noteq> []" using r' y by (simp add: split_ws_word)
      finally have ne: "split_ws ?r \<noteq> []" .
      have "join [32] (split_ws s) = (c # ?tw) @ [32] @ join [32] (split_ws ?r)"
        using sw ne by (simp add: join_Cons)
      also have "\<dots> = c # ?tw @ ?r" using ih r x32 by simp
      also have "\<dots> = c # cs" by simp
      finally show ?thesis using Cons by simp
    qed
  qed
qed

section \<open>The passage endpoint\<close>

lemma call_gemini_Inr:
  assumes "call_gemini prompt w = (Inr t, w1)"
  shows "\<exists>r c. generate_content w MODEL_NAME (length (prompts w)) prompt = Some r \<and>
           candidates r = [Some c] \<and> t = strip c \<and> w1 = w\<lparr>prompts := prompts w @ [prompt]\<rparr>"
  using assms
  by (auto simp: call_gemini_def text'_def Let_def
           split: option.splits list.splits if_splits sum.splits)

lemma generate_rsvp_Inr:
  assumes "generate_rsvp payload w = (Inr out, w')"
  shows "\<exists>r c.
           generate_content w MODEL_NAME (length (prompts w))
             (PROMPT_TEXTO (topic payload) (palabras_objetivo payload)) = Some r \<and>
           candidates r = [Some c] \<and>
           RSVPOut.texto out = strip c \<and> palabras out = split_ws (strip c)"
proof -
  let ?p = "PROMPT_TEXTO (topic payload) (palabras_objetivo payload)"
  obtain res w1 where cg: "call_gemini ?p w = (res, w1)" by (cases "call_gemini ?p w")
  show ?thesis
  proof (cases res)
    case (Inl e)
    with assms cg show ?thesis by (simp add: generate_rsvp_def)
  next
    case (Inr t)
    with cg obtain r c where
      "generate_content w MODEL_NAME (length (prompts w)) ?p = Some r"
      "candidates r = [Some c]" "t = strip c"
      using call_gemini_Inr by blast
    moreover have "RSVPOut.texto out = t \<and> palabras out = split_ws t"
      using assms cg Inr by (auto simp: generate_rsvp_def Let_def split: prod.splits)
    ultimately show ?thesis by auto
  qed
qed

text \<open>
  C10. For every successful passage response, every element of \<open>palabras\<close> is a
  non-empty string without whitespace, and the sequence is exactly the whitespace
  tokenization of \<open>texto\<close>: the text is the words woven with whitespace gaps, and any
  way of cutting the text (or the untrimmed upstream text) into whitespace-free words and
  whitespace gaps has exactly these words, in this order.
\<close>

theorem generate_rsvp_words_tokenize:
  assumes "generate_rsvp payload w = (Inr out, w')"
  shows "(\<forall>wd \<in> set (palabras out). wd \<noteq> [] \<and> (\<forall>c \<in> set wd. \<not> isspace c)) \<and>
         (\<exists>g0 wgs. tokenization g0 wgs \<and> weave g0 wgs = RSVPOut.texto out \<and>
                    map fst wgs = palabras out) \<and>
         (\<forall>g0 wgs. tokenization g0 wgs \<and> weave g0 wgs = RSVPOut.texto out
                    \<longrightarrow> map fst wgs = palabras out) \<and>
         (\<forall>r c g0 wgs.
            generate_content w MODEL_NAME (length (prompts w))
              (PROMPT_TEXTO (topic payload) (palabras_objetivo payload)) = Some r \<and>
            candidates r = [Some c] \<and> tokenization g0 wgs \<and> weave g0 wgs = c
            \<longrightarrow> map fst wgs = palabras out)"
proof -
  from generate_rsvp_Inr [OF assms] obtain r c where
    gc: "generate_content w MODEL_NAME (length (prompts w))
           (PROMPT_TEXTO (topic payload) (palabras_objetivo payload)) = Some r"
    and cand: "candidates r = [Some c]"
    and tx: "RSVPOut.texto out = strip c" and ws: "palabras out = split_ws (strip c)"
    by blast
  have ws': "palabras out = split_ws (RSVPOut.texto out)" using tx ws by simp
  have 1: "\<forall>wd \<in> set (palabras out). wd \<noteq> [] \<and> (\<forall>c \<in> set wd. \<not> isspace c)"
    using split_ws_words ws' by metis
  have 2: "\<exists>g0 wgs. tokenization g0 wgs \<and> weave g0 wgs = RSVPOut.texto out \<and>
                    map fst wgs = palabras out"
    using weave_split_ws [of "RSVPOut.texto out"] ws' by simp
  have 3: "\<forall>g0 wgs. tokenization g0 wgs \<and> weave g0 wgs = RSVPOut.texto out
                    \<longrightarrow> map fst wgs = palabras out"
    using split_ws_weave ws' by metis
  have 4: "\<forall>r' c' g0 wgs.
            generate_content w MODEL_NAME (length (prompts w))
              (PROMPT_TEXTO (topic payload) (palabras_objetivo payload)) = Some r' \<and>
            candidates r' = [Some c'] \<and> tokenization g0 wgs \<and> weave g0 wgs = c'
            \<longrightarrow> map fst wgs = palabras out"
  proof (intro allI impI, elim conjE)
    fix r' c' g0 wgs
    assume a: "generate_content w MODEL_NAME (length (prompts w))
              (PROMPT_TEXTO (topic payload) (palabras_objetivo payload)) = Some r'"
      and b: "candidates r' = [Some c']" and t: "tokenization g0 wgs" and wv: "weave g0 wgs = c'"
    have "c' = c" using a b gc cand by simp
    then have "palabras out = split_ws (weave g0 wgs)" using ws wv split_ws_strip by simp
    then show "map fst wgs = palabras out" using split_ws_weave [OF t] by simp
  qed
  from 1 2 3 4 show ?thesis by blast
qed

lemma stub_rsvp:
  "fst (generate_rsvp payload (stub_world (reply s))) =
     Inr \<lparr>id' = str_uuid (fst (uuid4 (stub_world (reply s)))),
          RSVPOut.texto = strip s, palabras = split_ws (strip s)\<rparr>"
  by (simp add: generate_rsvp_def call_gemini_def text'_def stub_world_def reply_def Let_def
      uuid4_def)

lemma split_ws_eval:
  "split_ws [] = []"
  "isspace c \<Longrightarrow> split_ws (c # s) = split_ws s"
  "\<not> isspace c \<Longrightarrow>
   split_ws (c # s) =
     (c # takeWhile (\<lambda>x. \<not> isspace x) s) # split_ws (dropWhile (\<lambda>x. \<not> isspace x) s)"
  by (simp_all add: split_ws_space split_ws_word)

theorem generate_rsvp_words_tokenize_witness:
  "map_sum (\<lambda>e. ()) palabras
     (fst (generate_rsvp ocean_request (stub_world (reply (pystr_of ''  warm  water flows ''))))) =
     Inr [pystr_of ''warm'', pystr_of ''water'', pystr_of ''flows''] \<and>
   list_all (\<lambda>wd. wd \<noteq> [] \<and> list_all (\<lambda>c. \<not> isspace c) wd)
     [pystr_of ''warm'', pystr_of ''water'', pystr_of ''flows'']"
proof -
  let ?w = "stub_world (reply (pystr_of ''  warm  water flows ''))"
  obtain out w' where g: "generate_rsvp ocean_request ?w = (Inr out, w')"
    and p: "palabras out = [pystr_of ''warm'', pystr_of ''water'', pystr_of ''flows'']"
  proof -
    have "fst (generate_rsvp ocean_request ?w) =
      Inr \<lparr>id' = str_uuid (fst (uuid4 ?w)),
          RSVPOut.texto = strip (pystr_of ''  warm  water flows ''),
          palabras = split_ws (strip (pystr_of ''  warm  water flows ''))\<rparr>"
      by (rule stub_rsvp)
    moreover have "split_ws (strip (pystr_of ''  warm  water flows '')) =
        [pystr_of ''warm'', pystr_of ''water'', pystr_of ''flows'']"
      by (simp add: strip_def strip_chars_def pystr_of_def isspace_def split_ws_eval)
    ultimately show ?thesis using that [of _ "snd (generate_rsvp ocean_request ?w)"]
      by (metis prod.collapse RSVPOut.select_convs(3))
  qed
  from generate_rsvp_words_tokenize [OF g] p
  have "\<forall>wd \<in> set [pystr_of ''warm'', pystr_of ''water'', pystr_of ''flows''].
          wd \<noteq> [] \<and> (\<forall>c \<in> set wd. \<not> isspace c)" by simp
  then show ?thesis using g p by (simp add: list_all_iff)
qed

text \<open>
  C4, as the specification states it: whenever the returned text contains no run of two
  or more spaces, joining the words with single spaces gives back the text. It fails for
  a text with a line break: the reply \<open>a\<newline>b\<close> is returned as it is, it contains no
  space at all, and its words \<open>a\<close> and \<open>b\<close> join to \<open>a b\<close>.
\<close>

theorem generate_rsvp_join_counterexample:
  "map_sum (\<lambda>e. ())
     (\<lambda>out. (RSVPOut.texto out, multi_space_run (RSVPOut.texto out), join [32] (palabras out)))
     (fst (generate_rsvp ocean_request (stub_world (reply [97, 10, 98])))) =
   Inr ([97, 10, 98], False, [97, 32, 98])"
  by (simp add: stub_rsvp strip_def strip_chars_def isspace_def split_ws_eval)

text \<open>
  C4, amended: for every successful passage response whose text has no whitespace
  character other than the space (code point 32) and no two adjacent spaces, the words
  joined with single spaces are the returned text.
\<close>

theorem generate_rsvp_join_single_spaced:
  assumes "generate_rsvp payload w = (Inr out, w')"
    and "\<forall>c \<in> set (RSVPOut.texto out). isspace c \<longrightarrow> c = 32"
    and "\<not> multi_space_run (RSVPOut.texto out)"
  shows "join [32] (palabras out) = RSVPOut.texto out"
proof -
  from generate_rsvp_Inr [OF assms(1)] obtain c where
    tx: "RSVPOut.texto out = strip c" and ws: "palabras out = split_ws (strip c)"
    by blast
  let ?t = "strip c"
  have e: "?t = [] \<or> (\<not> isspace (hd ?t) \<and> \<not> isspace (last ?t))" by (rule strip_edges)
  then have l: "?t = [] \<or> \<not> isspace (last ?t)" by blast
  have "join [32] (split_ws ?t) = dropWhile isspace ?t"
    using assms(2,3) l unfolding tx by (rule join_split_ws)
  also have "\<dots> = ?t" using e by (cases ?t) auto
  finally show ?thesis using tx ws by simp
qed

theorem generate_rsvp_join_single_spaced_witness:
  "map_sum (\<lambda>e. ()) (\<lambda>out. (RSVPOut.texto out, join [32] (palabras out)))
     (fst (generate_rsvp ocean_request
        (stub_world (reply (pystr_of ''  warm water flows'' @ [10]))))) =
   Inr (pystr_of ''warm water flows'', pystr_of ''warm water flows'')"
proof -
  let ?w = "stub_world (reply (pystr_of ''  warm water flows'' @ [10]))"
  let ?out = "\<lparr>id' = str_uuid (fst (uuid4 ?w)),
          RSVPOut.texto = strip (pystr_of ''  warm water flows'' @ [10]),
          palabras = split_ws (strip (pystr_of ''  warm water flows'' @ [10]))\<rparr>"
  have f: "fst (generate_rsvp ocean_request ?w) = Inr ?out" by (rule stub_rsvp)
  then have g: "generate_rsvp ocean_request ?w = (Inr ?out, snd (generate_rsvp ocean_request ?w))"
    by (metis prod.collapse)
  have t: "RSVPOut.texto ?out = pystr_of ''warm water flows''"
    by (simp add: strip_def strip_chars_def pystr_of_def isspace_def)
  have h1: "\<forall>c \<in> set (RSVPOut.texto ?out). isspace c \<longrightarrow> c = 32"
    unfolding t by (simp add: pystr_of_def isspace_def)
  have h2: "\<not> multi_space_run (RSVPOut.texto ?out)"
    unfolding t by (simp add: pystr_of_def)
  have "join [32] (palabras ?out) = RSVPOut.texto ?out"
    using generate_rsvp_join_single_spaced [OF g h1 h2] .
  then show ?thesis unfolding f using t by simp
qed

section \<open>Structure of decoded text\<close>

lemma skip_whitespace_suffix: "suffix (skip_whitespace s) s"
  by (simp add: skip_whitespace_def suffix_dropWhile)

lemma skip_whitespace_length: "length (skip_whitespace s) \<le> length s"
  by (simp add: skip_whitespace_def length_dropWhile_le)

lemma skip_whitespace_decompose:
  "\<exists>ws. s = ws @ skip_whitespace s \<and> (\<forall>c \<in> set ws. json_ws c)"
proof -
  have "s = takeWhile json_ws s @ skip_whitespace s" by (simp add: skip_whitespace_def)
  moreover have "\<forall>c \<in> set (takeWhile json_ws s). json_ws c" by (auto dest: set_takeWhileD)
  ultimately show ?thesis by blast
qed

lemma scanstring_suffix:
  "scanstring acc s = Inr (k, r) \<Longrightarrow> suffix r s \<and> length r < length s"
proof (induction "length s" arbitrary: acc s rule: less_induct)
  case less
  show ?case
  proof (cases s)
    case Nil
    with less.prems show ?thesis by simp
  next
    case (Cons c cs)
    have "scanstring acc (c # cs) = Inr (k, r)" using less.prems Cons by simp
    then have "r = cs \<or> (\<exists>a. scanstring a cs = Inr (k, r)) \<or>
        (\<exists>a. scanstring a (tl cs) = Inr (k, r)) \<or>
        (\<exists>a. scanstring a (drop 4 (tl cs)) = Inr (k, r)) \<or>
        (\<exists>a. scanstring a (drop 10 (tl cs)) = Inr (k, r))"
      unfolding scanstring.simps(2) [of acc c cs]
      by (auto split: if_splits list.splits option.splits simp del: scanstring.simps)
    moreover have "\<And>a t. scanstring a t = Inr (k, r) \<Longrightarrow> suffix t cs
        \<Longrightarrow> suffix r s \<and> length r < length s"
    proof -
      fix a t
      assume a: "scanstring a t = Inr (k, r)" and b: "suffix t cs"
      have l: "length t \<le> length cs" using b by (rule suffix_length_le)
      then have "length t < length s" using Cons by simp
      from less.hyps [OF this a] have "suffix r t" "length r < length t" by simp_all
      then show "suffix r s \<and> length r < length s"
        using b l Cons by (metis suffix_order.trans suffix_Cons less_le_trans less_SucI length_Cons
            order_less_le_trans)
    qed
    moreover have "suffix cs cs" "suffix (tl cs) cs" "suffix (drop 4 (tl cs)) cs"
      "suffix (drop 10 (tl cs)) cs"
      by (simp_all add: suffix_tl suffix_drop suffix_order.trans [OF suffix_drop suffix_tl])
    ultimately show ?thesis using Cons by (auto simp del: scanstring.simps simp: suffix_Cons)
  qed
qed

lemma match_digits_suffix: "match_digits d ds = Some (i, r) \<Longrightarrow> suffix r ds"
  by (auto simp: match_digits_def suffix_dropWhile split: if_splits)

lemma match_integer_suffix:
  "match_integer s = Some (neg, i, r) \<Longrightarrow> suffix r s \<and> length r < length s"
proof (cases s)
  case Nil
  then show "match_integer s = Some (neg, i, r) \<Longrightarrow> ?thesis" by simp
next
  case (Cons c cs)
  assume a: "match_integer s = Some (neg, i, r)"
  show ?thesis
  proof (cases "c = 45")
    case True
    with a Cons obtain d ds where cs: "cs = d # ds" and m: "match_digits d ds = Some (i, r)"
      by (auto split: list.splits option.splits)
    from match_digits_suffix [OF m] have "suffix r ds" .
    then show ?thesis using Cons cs
      by (auto simp: suffix_Cons dest: suffix_length_le)
  next
    case False
    with a Cons have m: "match_digits c cs = Some (i, r)"
      by (auto split: option.splits)
    from match_digits_suffix [OF m] show ?thesis using Cons
      by (auto simp: suffix_Cons dest: suffix_length_le)
  qed
qed

lemma match_frac_suffix: "match_frac s = (f, r) \<Longrightarrow> suffix r s"
  by (induction s rule: match_frac.induct)
     (auto simp: suffix_Cons suffix_dropWhile split: if_splits)

lemma match_sign_suffix: "match_sign s = (f, r) \<Longrightarrow> suffix r s"
  by (induction s rule: match_sign.induct) (auto simp: suffix_Cons split: if_splits)

lemma match_exp_suffix: "match_exp s = (f, r) \<Longrightarrow> suffix r s"
proof (cases s)
  case Nil
  then show "match_exp s = (f, r) \<Longrightarrow> ?thesis" by simp
next
  case (Cons e es)
  assume a: "match_exp s = (f, r)"
  obtain sg ds where ms: "match_sign es = (sg, ds)" by (cases "match_sign es")
  have "suffix ds es" using match_sign_suffix [OF ms] .
  then have "suffix (dropWhile isdigit ds) (e # es)"
    by (meson suffix_ConsI suffix_dropWhile suffix_order.trans)
  then show ?thesis using a Cons ms by (auto split: if_splits)
qed

lemma match_number_suffix:
  assumes "match_number s = Some (v, r)"
  shows "suffix r s \<and> length r < length s \<and> (\<forall>kv. v \<noteq> PyDict kv)"
proof -
  from assms obtain neg i r1 where mi: "match_integer s = Some (neg, i, r1)"
    by (auto simp: match_number_def split: option.splits)
  obtain f r2 where mf: "match_frac r1 = (f, r2)" by (cases "match_frac r1")
  obtain e r3 where me: "match_exp r2 = (e, r3)" by (cases "match_exp r2")
  have r: "r = r3" and v: "\<forall>kv. v \<noteq> PyDict kv"
    using assms mi mf me by (auto simp: match_number_def split: if_splits)
  have "suffix r3 r1"
    using match_frac_suffix [OF mf] match_exp_suffix [OF me] by (rule suffix_order.trans [rotated])
  moreover have "suffix r1 s" "length r1 < length s" using match_integer_suffix [OF mi] by simp_all
  ultimately show ?thesis using r v
    by (meson suffix_length_le suffix_order.trans order_le_less_trans)
qed

lemma startswith_single: "startswith s [c] \<longleftrightarrow> (\<exists>r. s = c # r)"
  by (cases s) (auto simp: startswith_def)

lemma startswith_drop:
  "startswith s p \<Longrightarrow> p \<noteq> [] \<Longrightarrow> suffix (drop (length p) s) s \<and> length (drop (length p) s) < length s"
proof -
  assume a: "startswith s p" and b: "p \<noteq> []"
  have "length (take (length p) s) = length p" using a by (simp add: startswith_def)
  then have "length p \<le> length s" by simp
  then show ?thesis using b by (cases p) (auto simp: suffix_drop)
qed

lemma scan_props:
  "(\<forall>v r. scan_once s = Inr (v, r) \<longrightarrow>
      suffix r s \<and> length r < length s \<and>
      (\<forall>kv. v = PyDict kv \<longrightarrow> (\<exists>cs. s = 123 # cs \<and> suffix (125 # r) cs))) \<and>
   (\<forall>acc v r. parse_array acc s = Inr (v, r) \<longrightarrow>
      suffix r s \<and> length r < length s \<and> (\<forall>kv. v \<noteq> PyDict kv)) \<and>
   (\<forall>acc v r. parse_object acc s = Inr (v, r) \<longrightarrow> suffix (125 # r) s)"
proof (induction "length s" arbitrary: s rule: less_induct)
  case less
  have IHs: "\<And>t v r. length t < length s \<Longrightarrow> scan_once t = Inr (v, r)
      \<Longrightarrow> suffix r t \<and> length r < length t"
    using less.hyps by blast
  have IHa: "\<And>t acc v r. length t < length s \<Longrightarrow> parse_array acc t = Inr (v, r)
      \<Longrightarrow> suffix r t \<and> length r < length t \<and> (\<forall>kv. v \<noteq> PyDict kv)"
    using less.hyps by blast
  have IHo: "\<And>t acc v r. length t < length s \<Longrightarrow> parse_object acc t = Inr (v, r)
      \<Longrightarrow> suffix (125 # r) t"
    using less.hyps by blast
  have P: "suffix r s \<and> length r < length s \<and>
      (\<forall>kv. v = PyDict kv \<longrightarrow> (\<exists>cs. s = 123 # cs \<and> suffix (125 # r) cs))"
    if a: "scan_once s = Inr (v, r)" for v r
  proof (cases s)
    case Nil
    with a show ?thesis by (simp add: scan_once.simps)
  next
    case (Cons c cs)
    note a' = a [unfolded Cons scan_once.simps(2)]
    have sk: "suffix (skip_whitespace cs) cs" "length (skip_whitespace cs) < length s"
      using skip_whitespace_suffix [of cs] skip_whitespace_length [of cs] Cons by simp_all
    consider (str) "c = 34" | (obj) "c = 123" | (arr) "c = 91"
      | (other) "c \<noteq> 34" "c \<noteq> 123" "c \<noteq> 91" by blast
    then show ?thesis
    proof cases
      case str
      with a' obtain k where k: "scanstring [] cs = Inr (k, r)" and v: "v = PyStr k"
        by (auto split: sum.splits)
      from scanstring_suffix [OF k] show ?thesis using v Cons by (auto simp: suffix_Cons)
    next
      case obj
      show ?thesis
      proof (cases "startswith (skip_whitespace cs) [125]")
        case True
        then obtain r0 where r0: "skip_whitespace cs = 125 # r0"
          by (auto simp: startswith_single)
        with a' obj True have r: "r = r0" by simp
        have "suffix (125 # r) cs" using sk(1) r0 r by simp
        moreover then have "suffix r cs" by (rule suffix_ConsD)
        ultimately show ?thesis using Cons obj
          by (auto simp: suffix_Cons dest: suffix_length_le)
      next
        case False
        with a' obj have po: "parse_object [] (skip_whitespace cs) = Inr (v, r)" by simp
        from IHo [OF sk(2) po] have "suffix (125 # r) (skip_whitespace cs)" .
        then have 1: "suffix (125 # r) cs" using sk(1) by (rule suffix_order.trans)
        then have "suffix r cs" by (rule suffix_ConsD)
        with 1 show ?thesis using Cons obj
          by (auto simp: suffix_Cons dest: suffix_length_le)
      qed
    next
      case arr
      show ?thesis
      proof (cases "startswith (skip_whitespace cs) [93]")
        case True
        then obtain r0 where r0: "skip_whitespace cs = 93 # r0"
          by (auto simp: startswith_single)
        with a' arr True have r: "r = r0" and v: "v = PyList []" by simp_all
        have "suffix (93 # r) cs" using sk(1) r0 r by simp
        then have "suffix r cs" by (rule suffix_ConsD)
        then show ?thesis using Cons v
          by (auto simp: suffix_Cons dest: suffix_length_le)
      next
        case False
        with a' arr have pa: "parse_array [] (skip_whitespace cs) = Inr (v, r)" by simp
        from IHa [OF sk(2) pa] have "suffix r (skip_whitespace cs)" "\<forall>kv. v \<noteq> PyDict kv"
          by simp_all
        moreover then have "suffix r cs" using sk(1) suffix_order.trans by blast
        ultimately show ?thesis using Cons
          by (auto simp: suffix_Cons dest: suffix_length_le)
      qed
    next
      case other
      have lit: "\<And>p n. startswith (c # cs) p \<Longrightarrow> length p = n \<Longrightarrow> 0 < n
          \<Longrightarrow> r = drop n (c # cs) \<Longrightarrow> suffix r s \<and> length r < length s"
        using startswith_drop Cons by (metis length_greater_0_conv)
      have lens: "length (pystr_of ''null'') = 4" "length (pystr_of ''true'') = 4"
        "length (pystr_of ''false'') = 5" "length (pystr_of ''NaN'') = 3"
        "length (pystr_of ''Infinity'') = 8" "length (pystr_of ''-Infinity'') = 9"
        by (simp_all add: pystr_of_def)
      have nd: "(\<forall>kv. v \<noteq> PyDict kv) \<and> suffix r s \<and> length r < length s"
      proof (cases "startswith (c # cs) (pystr_of ''null'')")
        case True
        with a' other have vv: "v = PyNone" and rr: "r = drop 4 (c # cs)" by simp_all
        have "suffix r s \<and> length r < length s" by (rule lit [OF True lens(1) _ rr]) simp
        then show ?thesis using vv by simp
      next
        case n1: False
        show ?thesis
        proof (cases "startswith (c # cs) (pystr_of ''true'')")
          case True
          with a' other n1 have vv: "v = PyBool True" and rr: "r = drop 4 (c # cs)"
            by simp_all
          have "suffix r s \<and> length r < length s" by (rule lit [OF True lens(2) _ rr]) simp
          then show ?thesis using vv by simp
        next
          case n2: False
          show ?thesis
          proof (cases "startswith (c # cs) (pystr_of ''false'')")
            case True
            with a' other n1 n2 have vv: "v = PyBool False" and rr: "r = drop 5 (c # cs)"
              by simp_all
            have "suffix r s \<and> length r < length s"
              by (rule lit [OF True lens(3) _ rr]) simp
            then show ?thesis using vv by simp
          next
            case n3: False
            show ?thesis
            proof (cases "match_number (c # cs)")
              case (Some p)
              obtain v0 r0 where p: "p = (v0, r0)" by (cases p)
              with a' other n1 n2 n3 Some have "v = v0" "r = r0" by simp_all
              then show ?thesis using match_number_suffix [of "c # cs" v0 r0] Some p Cons
                by simp
            next
              case None
              note a'' = a' [unfolded None]
              show ?thesis
              proof (cases "startswith (c # cs) (pystr_of ''NaN'')")
                case True
                with a'' other n1 n2 n3 have vv: "v = PyFloat (pystr_of ''nan'')"
                  and rr: "r = drop 3 (c # cs)" by simp_all
                have "suffix r s \<and> length r < length s"
                  by (rule lit [OF True lens(4) _ rr]) simp
                then show ?thesis using vv by simp
              next
                case n4: False
                show ?thesis
                proof (cases "startswith (c # cs) (pystr_of ''Infinity'')")
                  case True
                  with a'' other n1 n2 n3 n4 have vv: "v = PyFloat (pystr_of ''inf'')"
                    and rr: "r = drop 8 (c # cs)" by simp_all
                  have "suffix r s \<and> length r < length s"
                    by (rule lit [OF True lens(5) _ rr]) simp
                  then show ?thesis using vv by simp
                next
                  case n5: False
                  show ?thesis
                  proof (cases "startswith (c # cs) (pystr_of ''-Infinity'')")
                    case True
                    with a'' other n1 n2 n3 n4 n5 have vv: "v = PyFloat (pystr_of ''-inf'')"
                      and rr: "r = drop 9 (c # cs)" by simp_all
                    have "suffix r s \<and> length r < length s"
                      by (rule lit [OF True lens(6) _ rr]) simp
                    then show ?thesis using vv by simp
                  next
                    case False
                    with a'' other n1 n2 n3 n4 n5 show ?thesis by simp
                  qed
                qed
              qed
            qed
          qed
        qed
      qed
      then show ?thesis by blast
    qed
  qed
  have Q: "suffix r s \<and> length r < length s \<and> (\<forall>kv. v \<noteq> PyDict kv)"
    if a: "parse_array acc s = Inr (v, r)" for acc v r
  proof -
    note a' = a [unfolded parse_array.simps [of acc s]]
    from a' obtain v0 r0 where so: "scan_once s = Inr (v0, r0)"
      by (auto split: sum.splits)
    from P [OF so] have r0: "suffix r0 s" "length r0 < length s" by simp_all
    have sk: "suffix (skip_whitespace r0) s" "length (skip_whitespace r0) < length s"
      using skip_whitespace_suffix [of r0] skip_whitespace_length [of r0] r0
      by (auto intro: suffix_order.trans)
    from a' so r0 obtain d r' where d: "skip_whitespace r0 = d # r'"
      by (auto split: list.splits)
    have r': "suffix r' s" "length r' < length s"
      using sk d by (auto dest: suffix_ConsD)
    consider (close) "d = 93" | (comma) "d = 44" "d \<noteq> 93" | (bad) "d \<noteq> 93" "d \<noteq> 44"
      by blast
    then show ?thesis
    proof cases
      case close
      with a' so r0 d have "v = PyList (acc @ [v0])" "r = r'" by simp_all
      then show ?thesis using r' by simp
    next
      case comma
      with a' so r0 d have pa: "parse_array (acc @ [v0]) (skip_whitespace r') = Inr (v, r)"
        by simp
      have l: "length (skip_whitespace r') < length s"
        using skip_whitespace_length [of r'] r'(2) by simp
      from IHa [OF l pa] have "suffix r (skip_whitespace r')" "length r < length (skip_whitespace r')"
        "\<forall>kv. v \<noteq> PyDict kv" by simp_all
      moreover have "suffix (skip_whitespace r') s"
        using skip_whitespace_suffix [of r'] r'(1) by (rule suffix_order.trans)
      ultimately show ?thesis using l by (auto intro: suffix_order.trans)
    next
      case bad
      with a' so r0 d show ?thesis by simp
    qed
  qed
  have R: "suffix (125 # r) s" if a: "parse_object acc s = Inr (v, r)" for acc v r
  proof -
    note a' = a [unfolded parse_object.simps [of acc s]]
    from a' have q: "startswith s [34]" by (auto split: if_splits)
    then obtain s1 where s1: "s = 34 # s1" by (auto simp: startswith_single)
    from a' q obtain key r1 where ss: "scanstring [] (tl s) = Inr (key, r1)"
      by (auto split: sum.splits)
    from scanstring_suffix [OF ss] s1 have r1: "suffix r1 s" "length r1 < length s"
      by (auto simp: suffix_Cons)
    from a' q ss have col: "startswith (skip_whitespace r1) [58]" by (auto split: if_splits)
    let ?t = "skip_whitespace (tl (skip_whitespace r1))"
    have t: "suffix ?t s" "length ?t < length s"
    proof -
      have "suffix ?t (tl (skip_whitespace r1))" by (rule skip_whitespace_suffix)
      also have "suffix \<dots> (skip_whitespace r1)" by (rule suffix_tl)
      also have "suffix \<dots> r1" by (rule skip_whitespace_suffix)
      finally have "suffix ?t r1" .
      then show "suffix ?t s" "length ?t < length s"
        using r1 by (auto intro: suffix_order.trans dest: suffix_length_le)
    qed
    from a' q ss col obtain v0 r0 where so: "scan_once ?t = Inr (v0, r0)"
      by (auto split: sum.splits)
    from IHs [OF t(2) so] have r0: "suffix r0 s" "length r0 < length s"
      using t by (auto intro: suffix_order.trans)
    from a' q ss col so r0 obtain d r' where d: "skip_whitespace r0 = d # r'"
      by (auto split: list.splits)
    have dr': "suffix (d # r') s"
      using skip_whitespace_suffix [of r0] r0(1) d by (auto intro: suffix_order.trans)
    then have r': "suffix r' s" "length r' < length s"
      by (auto dest: suffix_ConsD suffix_length_le)
    consider (close) "d = 125" | (comma) "d = 44" "d \<noteq> 125" | (bad) "d \<noteq> 125" "d \<noteq> 44"
      by blast
    then show ?thesis
    proof cases
      case close
      with a' q ss col so r0 d have "r = r'" by simp
      then show ?thesis using dr' close by simp
    next
      case comma
      with a' q ss col so r0 d have
        po: "parse_object (AList.update key v0 acc) (skip_whitespace r') = Inr (v, r)"
        by simp
      have l: "length (skip_whitespace r') < length s"
        using skip_whitespace_length [of r'] r'(2) by simp
      from IHo [OF l po] have "suffix (125 # r) (skip_whitespace r')" .
      also have "suffix \<dots> r'" by (rule skip_whitespace_suffix)
      also note r'(1)
      finally show ?thesis .
    next
      case bad
      with a' q ss col so r0 d show ?thesis by simp
    qed
  qed
  from P Q R show ?case by blast
qed

lemma scan_once_shorter: "scan_once s = Inr (v, r) \<Longrightarrow> length r < length s"
  using scan_props [of s] by blast

lemma scan_once_dict_shape:
  assumes "scan_once s = Inr (PyDict kv, r)"
  shows "\<exists>body. s = 123 # body @ 125 # r"
proof -
  from scan_props [of s] assms obtain cs where "s = 123 # cs" "suffix (125 # r) cs" by blast
  then show ?thesis by (auto simp: suffix_def)
qed

lemma skip_whitespace_Nil: "skip_whitespace r = [] \<longleftrightarrow> (\<forall>c \<in> set r. json_ws c)"
  by (simp add: skip_whitespace_def)

lemma loads_dict_shape:
  assumes "loads J = Inr (PyDict kv)"
  shows "\<exists>a body b. J = a @ (123 # body @ [125]) @ b \<and>
           (\<forall>c \<in> set a. json_ws c) \<and> (\<forall>c \<in> set b. json_ws c)"
proof -
  from assms obtain r where so: "scan_once (skip_whitespace J) = Inr (PyDict kv, r)"
    and r: "skip_whitespace r = []"
    by (auto simp: loads_def split: if_splits sum.splits)
  from scan_once_dict_shape [OF so] obtain body where
    b: "skip_whitespace J = 123 # body @ 125 # r" by blast
  from skip_whitespace_decompose [of J] obtain a where
    a: "J = a @ skip_whitespace J" "\<forall>c \<in> set a. json_ws c" by blast
  have "J = a @ (123 # body @ [125]) @ r" using a(1) b by simp
  then show ?thesis using a(2) r skip_whitespace_Nil by blast
qed

lemma json_ws_isspace: "json_ws c \<Longrightarrow> isspace c"
  by (auto simp: json_ws_def isspace_def)

lemma strip_chars_core:
  assumes "m \<noteq> []" "\<not> p (hd m)" "\<not> p (last m)"
  shows "strip_chars p (u @ m @ v) = dropWhile p u @ m @ rev (dropWhile p (rev v))"
proof -
  obtain x m' where m: "m = x # m'" using assms(1) by (cases m) auto
  have x: "\<not> p x" using assms(2) m by simp
  have 1: "dropWhile p (u @ m @ v) = dropWhile p u @ m @ v"
  proof (cases "\<forall>c \<in> set u. p c")
    case True
    then show ?thesis using m x by (simp add: dropWhile_append)
  next
    case False
    then show ?thesis by (auto simp: dropWhile_append)
  qed
  let ?w = "dropWhile p u @ m"
  have l: "last ?w = last m" "?w \<noteq> []" using assms(1) by simp_all
  then have hr: "rev ?w = last m # rev (butlast ?w)"
    by (metis append_butlast_last_id rev.simps(2) rev_append rev_rev_ident rev_singleton_conv
        append_Nil)
  have 2: "dropWhile p (rev v @ rev ?w) = dropWhile p (rev v) @ rev ?w"
  proof (cases "\<forall>c \<in> set (rev v). p c")
    case True
    then show ?thesis using hr assms(3) by (simp add: dropWhile_append)
  next
    case False
    then show ?thesis by (auto simp: dropWhile_append)
  qed
  have "strip_chars p (u @ m @ v) = rev (dropWhile p (rev (?w @ v)))"
    using 1 by (simp add: strip_chars_def)
  also have "\<dots> = rev (dropWhile p (rev v @ rev ?w))" by simp
  also have "\<dots> = ?w @ rev (dropWhile p (rev v))" unfolding 2 by simp
  finally show ?thesis by simp
qed

lemma strip_chars_exact:
  assumes "m \<noteq> []" "\<not> p (hd m)" "\<not> p (last m)" "\<forall>c \<in> set u. p c" "\<forall>c \<in> set v. p c"
  shows "strip_chars p (u @ m @ v) = m"
proof -
  have a: "dropWhile p u = []" using assms(4) by simp
  have b: "dropWhile p (rev v) = []" using assms(5) by simp
  show ?thesis unfolding strip_chars_core [OF assms(1,2,3)] a b by simp
qed

lemma strip_chars_idem: "strip_chars p (strip_chars p s) = strip_chars p s"
proof (cases "strip_chars p s = []")
  case True
  have "strip_chars p [] = []" by (simp add: strip_chars_def)
  then show ?thesis using True by simp
next
  case False
  let ?m = "strip_chars p s"
  let ?t = "dropWhile p s"
  let ?u = "dropWhile p (rev ?t)"
  have u: "?m = rev ?u" by (simp add: strip_chars_def)
  then have une: "?u \<noteq> []" using False by simp
  have tne: "?t \<noteq> []" using une by (auto dest: set_dropWhileD)
  have l: "\<not> p (last ?m)" using hd_dropWhile [OF une] u une by (simp add: last_rev)
  have "hd ?m = last ?u" using u une by (simp add: hd_rev)
  also have "\<dots> = last (takeWhile p (rev ?t) @ ?u)" by (rule last_appendR [symmetric, OF une])
  also have "\<dots> = last (rev ?t)" by (simp only: takeWhile_dropWhile_id)
  also have "\<dots> = hd ?t" using tne by (simp add: last_rev)
  finally have h: "\<not> p (hd ?m)" using hd_dropWhile [OF tne] by simp
  show ?thesis using strip_chars_exact [OF False h l, of "[]" "[]"] by simp
qed

lemma strip_idem: "strip (strip s) = strip s"
  by (simp add: strip_def strip_chars_idem)

lemma str_find_first:
  assumes "c \<notin> set x"
  shows "str_find (x @ c # y) c = int (length x)"
proof -
  have "takeWhile (\<lambda>z. z \<noteq> c) (x @ c # y) = x" using assms by (simp add: takeWhile_append)
  then show ?thesis by (simp add: str_find_def)
qed

lemma str_rfind_last:
  assumes "c \<notin> set y"
  shows "str_rfind (x @ c # y) c = int (length x)"
proof -
  have "rev (x @ c # y) = rev y @ c # rev x" by simp
  moreover have "takeWhile (\<lambda>z. z \<noteq> c) (rev y @ c # rev x) = rev y"
    using assms by (simp add: takeWhile_append)
  ultimately have "length (takeWhile (\<lambda>z. z \<noteq> c) (rev (x @ c # y))) = length y" by simp
  then show ?thesis by (simp add: str_rfind_def)
qed

lemma str_slice_middle:
  "str_slice (x @ m @ y) (int (length x)) (int (length x + length m)) = m"
  by (simp add: str_slice_def slice_index_def)
section \<open>Normalizing the reply\<close>

lemma safe_json_loads_plain:
  assumes "\<forall>c \<in> set a. json_ws c" "\<forall>c \<in> set b. json_ws c"
  shows "safe_json_loads (a @ (123 # body @ [125]) @ b) = loads (123 # body @ [125])"
proof -
  define core where "core = 123 # body @ [125]"
  have c: "core \<noteq> []" "\<not> isspace (hd core)" "\<not> isspace (last core)"
    by (simp_all add: core_def isspace_def)
  have a: "\<forall>c \<in> set a. isspace c" and b: "\<forall>c \<in> set b. isspace c"
    using assms json_ws_isspace by blast+
  have s: "strip (a @ core @ b) = core"
    unfolding strip_def using c a b by (rule strip_chars_exact)
  have n: "\<not> startswith core [96, 96, 96]" by (simp add: core_def startswith_def)
  have "safe_json_loads (a @ core @ b) = loads core"
    unfolding safe_json_loads_def Let_def s using n by simp
  then show ?thesis by (simp add: core_def)
qed

lemma safe_json_loads_fenced:
  assumes "\<forall>c \<in> set a. json_ws c" "\<forall>c \<in> set b. json_ws c"
    and "123 \<notin> set lbl" "125 \<notin> set sfx"
  shows "safe_json_loads ([96, 96, 96] @ lbl @ (a @ (123 # body @ [125]) @ b) @ sfx @ [96, 96, 96]) =
         loads (123 # body @ [125])"
proof -
  define core where "core = 123 # body @ [125]"
  define u where "u = [96, 96, 96] @ lbl @ a"
  define v where "v = b @ sfx @ [96, 96, 96]"
  define F where "F = u @ core @ v"
  define X where "X = dropWhile (\<lambda>c. c = 96) u"
  define Y where "Y = rev (dropWhile (\<lambda>c. c = 96) (rev v))"
  have F: "[96, 96, 96] @ lbl @ (a @ (123 # body @ [125]) @ b) @ sfx @ [96, 96, 96] = F"
    by (simp add: F_def u_def v_def core_def)
  have Fne: "F \<noteq> []" "\<not> isspace (hd F)" "\<not> isspace (last F)"
    by (simp_all add: F_def u_def v_def isspace_def)
  have sF: "strip F = F"
    using strip_chars_exact [OF Fne, of "[]" "[]"] by (simp add: strip_def)
  have sw: "startswith F [96, 96, 96]" by (simp add: F_def u_def startswith_def)
  have c: "core \<noteq> []" "\<not> (\<lambda>c. c = 96) (hd core)" "\<not> (\<lambda>c. c = 96) (last core)"
    by (simp_all add: core_def)
  have sc: "strip_chars (\<lambda>c. c = 96) F = X @ core @ Y"
    unfolding F_def X_def Y_def using c by (rule strip_chars_core)
  have "123 \<notin> set u" using assms(1,3) by (auto simp: u_def json_ws_def)
  then have X: "123 \<notin> set X" unfolding X_def by (auto dest: set_dropWhileD)
  have "125 \<notin> set (rev v)" using assms(2,4) by (auto simp: v_def json_ws_def)
  then have Y: "125 \<notin> set Y" unfolding Y_def by (auto dest: set_dropWhileD)
  have f1: "str_find (X @ core @ Y) 123 = int (length X)"
    using str_find_first [OF X, of "body @ [125] @ Y"] by (simp add: core_def)
  have f2: "str_rfind (X @ core @ Y) 125 = int (length X + length core) - 1"
    using str_rfind_last [OF Y, of "X @ 123 # body"] by (simp add: core_def)
  have sl: "str_slice (X @ core @ Y) (int (length X)) (int (length X + length core) - 1 + 1) = core"
    using str_slice_middle [of X core Y] by simp
  have "0 < length core" by (simp add: core_def)
  then have lc: "int (length X) + int (length core) \<noteq> 0" by linarith
  have "safe_json_loads F = loads core"
    unfolding safe_json_loads_def Let_def sF sc f1 f2 using sw sl lc by simp
  then show ?thesis unfolding F by (simp add: core_def)
qed

lemma safe_json_loads_strip: "safe_json_loads (strip s) = safe_json_loads s"
  by (simp add: safe_json_loads_def strip_idem)

lemma uuid4_bits:
  "fst (uuid4 (w\<lparr>prompts := ps\<rparr>)) = fst (uuid4 w)"
  "fst (uuid4 (w\<lparr>generate_content := g\<rparr>)) = fst (uuid4 w)"
  by (simp_all add: uuid4_def Let_def)

lemma generate_quiz_with_reply:
  "fst (generate_quiz lax payload (with_reply w s)) =
     (case safe_json_loads s of
        Inl e \<Rightarrow>
          Inl (HTTPException 502
                 (pystr_of ''Respuesta de Gemini no es JSON v'' @ [225] @
                  pystr_of ''lido: '' @ str_exception e))
      | Inr data \<Rightarrow>
          (case QuizPayload_init lax data of
             Inl e \<Rightarrow>
               Inl (HTTPException 422
                      (pystr_of ''Estructura de quiz inv'' @ [225] @
                       pystr_of ''lida: '' @ str_exception e))
           | Inr quiz \<Rightarrow>
               Inr \<lparr>rsvp_session_id = str_uuid (fst (uuid4 w)),
                    QuizOut.preguntas = QuizPayload.preguntas quiz\<rparr>))"
  by (simp add: generate_quiz_def call_gemini_def text'_def with_reply_def reply_def Let_def
      safe_json_loads_strip uuid4_def split: sum.splits)

text \<open>
  C2. For every text \<open>J\<close> that decodes to a JSON object, the reply made of three
  backquotes, a marker without an opening brace (such as \<open>json\<close> and a line break),
  \<open>J\<close>, a tail without a closing brace, and three backquotes is normalized to the same
  decoded value as \<open>J\<close> itself, and the quiz endpoint gives the same result for both
  replies.
\<close>

theorem fenced_reply_same_as_unfenced:
  assumes "loads J = Inr (PyDict kv)" and "123 \<notin> set lbl" and "125 \<notin> set sfx"
  shows "safe_json_loads ([96, 96, 96] @ lbl @ J @ sfx @ [96, 96, 96]) = safe_json_loads J \<and>
         fst (generate_quiz lax payload
                (with_reply w ([96, 96, 96] @ lbl @ J @ sfx @ [96, 96, 96]))) =
         fst (generate_quiz lax payload (with_reply w J))"
proof -
  from loads_dict_shape [OF assms(1)] obtain a body b where
    J: "J = a @ (123 # body @ [125]) @ b"
    and a: "\<forall>c \<in> set a. json_ws c" and b: "\<forall>c \<in> set b. json_ws c"
    by blast
  have "safe_json_loads ([96, 96, 96] @ lbl @ J @ sfx @ [96, 96, 96]) = loads (123 # body @ [125])"
    unfolding J using a b assms(2,3) by (rule safe_json_loads_fenced)
  moreover have "safe_json_loads J = loads (123 # body @ [125])"
    unfolding J using a b by (rule safe_json_loads_plain)
  ultimately have "safe_json_loads ([96, 96, 96] @ lbl @ J @ sfx @ [96, 96, 96]) = safe_json_loads J"
    by simp
  then show ?thesis by (simp only: generate_quiz_with_reply)
qed

lemmas json_eval = loads_def scan_once.simps parse_array.simps parse_object.simps
  skip_whitespace_def json_ws_def startswith_def pystr_of_def match_number_def isdigit_def
  int_of_digits_def BACKSLASH_def hexval_def match_digits_def

lemmas normalize_eval = safe_json_loads_def strip_def strip_chars_def isspace_def Let_def
  str_find_def str_rfind_def str_slice_def slice_index_def

theorem fenced_reply_same_as_unfenced_witness:
  "safe_json_loads
     ([96, 96, 96] @ (pystr_of ''json'' @ [10]) @
      ([32, 123, 34, 97, 34, 58, 32] @ pystr_of ''1}'') @ [10] @ [96, 96, 96]) =
   Inr (PyDict [([97], PyInt 1)])"
proof -
  let ?J = "[32, 123, 34, 97, 34, 58, 32] @ pystr_of ''1}''"
  have l: "loads ?J = Inr (PyDict [([97], PyInt 1)])" by (simp add: json_eval)
  have 1: "123 \<notin> set (pystr_of ''json'' @ [10])" by (simp add: pystr_of_def)
  have 2: "125 \<notin> set [10::nat]" by simp
  have "safe_json_loads ?J = Inr (PyDict [([97], PyInt 1)])"
    by (simp add: normalize_eval json_eval)
  then show ?thesis
    using fenced_reply_same_as_unfenced [OF l 1 2, of no_coercions quiz_request "stub_world None"]
    by simp
qed

section \<open>Replies without an object\<close>

lemma stub_world_reply: "stub_world (reply s) = with_reply (stub_world None) s"
  by (simp add: stub_world_def with_reply_def)

lemma set_strip_chars: "set (strip_chars p s) \<subseteq> set s"
  by (auto simp: strip_chars_def dest!: set_dropWhileD)

lemma set_str_slice: "set (str_slice s a b) \<subseteq> set s"
  by (auto simp: str_slice_def dest!: in_set_takeD in_set_dropD)

lemma loads_dict_brace: "loads t = Inr (PyDict kv) \<Longrightarrow> 123 \<in> set t"
  using loads_dict_shape [of t kv] by auto

lemma safe_json_loads_dict_brace:
  assumes "safe_json_loads s = Inr (PyDict kv)"
  shows "123 \<in> set s"
proof -
  let ?t = "strip s"
  let ?u = "strip_chars (\<lambda>c. c = 96) ?t"
  from assms have "loads ?t = Inr (PyDict kv) \<or> loads ?u = Inr (PyDict kv) \<or>
      loads (str_slice ?u (str_find ?u 123) (str_rfind ?u 125 + 1)) = Inr (PyDict kv)"
    by (auto simp: safe_json_loads_def Let_def split: if_splits)
  then have "123 \<in> set ?t \<or> 123 \<in> set ?u \<or>
      123 \<in> set (str_slice ?u (str_find ?u 123) (str_rfind ?u 125 + 1))"
    using loads_dict_brace by blast
  moreover have "set ?u \<subseteq> set s" "set ?t \<subseteq> set s"
    using set_strip_chars [of "\<lambda>c. c = 96" ?t] set_strip_chars [of isspace s]
    by (auto simp: strip_def)
  moreover have "set (str_slice ?u (str_find ?u 123) (str_rfind ?u 125 + 1)) \<subseteq> set ?u"
    by (rule set_str_slice)
  ultimately show ?thesis by blast
qed

lemma QuizPayload_init_not_dict:
  "\<forall>kv. v \<noteq> PyDict kv \<Longrightarrow>
   QuizPayload_init lax v =
     Inl (TypeError (pystr_of ''QuizPayload() argument after ** must be a mapping, not '' @
                     type_name v))"
  by (cases v) (simp_all add: QuizPayload_init_def)

text \<open>
  C3, as the specification states it: a reply without any opening brace always fails
  with the JSON-parse error (502), never with the structural-validation error (422). It
  fails for the reply \<open>[]\<close>: the text has no brace, it is valid JSON, and unpacking the
  decoded list into the model fails inside the second \<open>try\<close> block, which answers 422.
\<close>

theorem no_brace_counterexample:
  "123 \<notin> set (pystr_of ''[]'') \<and>
   map_sum status_code (\<lambda>out. ())
     (fst (generate_quiz no_coercions quiz_request (stub_world (reply (pystr_of ''[]''))))) =
   Inl 422"
proof -
  have "safe_json_loads (pystr_of ''[]'') = Inr (PyList [])"
    by (simp add: normalize_eval json_eval)
  then show ?thesis
    by (simp add: stub_world_reply generate_quiz_with_reply QuizPayload_init_def pystr_of_def)
qed

text \<open>
  C3, amended: a reply without any opening brace never yields a quiz. When it does not
  decode as JSON the endpoint fails with 502 and the decoder's message; when it decodes
  (to a value that is then not an object: an array, a string, a number, \<open>true\<close>,
  \<open>false\<close> or \<open>null\<close>) the endpoint fails with 422.
\<close>

theorem no_brace_never_a_quiz:
  assumes "123 \<notin> set s"
  shows "(\<forall>e. safe_json_loads s = Inl e \<longrightarrow>
            fst (generate_quiz lax payload (with_reply w s)) =
              Inl (HTTPException 502
                     (pystr_of ''Respuesta de Gemini no es JSON v'' @ [225] @
                            pystr_of ''lido: '' @ str_exception e))) \<and>
         (\<forall>v. safe_json_loads s = Inr v \<longrightarrow>
            (\<forall>kv. v \<noteq> PyDict kv) \<and>
            fst (generate_quiz lax payload (with_reply w s)) =
              Inl (HTTPException 422
                     (pystr_of ''Estructura de quiz inv'' @ [225] @ pystr_of ''lida: '' @
                            str_exception
                              (TypeError
                                 (pystr_of ''QuizPayload() argument after ** must be a mapping, not '' @
                                  type_name v)))))"
proof (intro conjI allI impI)
  fix e assume "safe_json_loads s = Inl e"
  then show "fst (generate_quiz lax payload (with_reply w s)) =
      Inl (HTTPException 502
             (pystr_of ''Respuesta de Gemini no es JSON v'' @ [225] @
                    pystr_of ''lido: '' @ str_exception e))"
    by (simp add: generate_quiz_with_reply)
next
  fix v kv assume v: "safe_json_loads s = Inr v"
  show "v \<noteq> PyDict kv" using safe_json_loads_dict_brace [of s kv] v assms by auto
next
  fix v assume v: "safe_json_loads s = Inr v"
  have nd: "\<forall>kv. v \<noteq> PyDict kv" using safe_json_loads_dict_brace [of s] v assms by auto
  show "fst (generate_quiz lax payload (with_reply w s)) =
      Inl (HTTPException 422
             (pystr_of ''Estructura de quiz inv'' @ [225] @ pystr_of ''lida: '' @
                    str_exception
                      (TypeError
                         (pystr_of ''QuizPayload() argument after ** must be a mapping, not '' @
                          type_name v))))"
    by (simp add: generate_quiz_with_reply v QuizPayload_init_not_dict [OF nd])
qed

theorem no_brace_never_a_quiz_witness:
  "map_sum status_code (\<lambda>out. ())
     (fst (generate_quiz no_coercions quiz_request
        (with_reply (stub_world None) (pystr_of ''No puedo ayudar con eso.'')))) =
   Inl 502"
proof -
  let ?s = "pystr_of ''No puedo ayudar con eso.''"
  have b: "123 \<notin> set ?s" by (simp add: pystr_of_def)
  have e: "safe_json_loads ?s = Inl expecting_value"
    by (simp add: normalize_eval json_eval)
  from no_brace_never_a_quiz [OF b, of no_coercions quiz_request "stub_world None"] e
  have "fst (generate_quiz no_coercions quiz_request (with_reply (stub_world None) ?s)) =
      Inl (HTTPException 502
             (pystr_of ''Respuesta de Gemini no es JSON v'' @ [225] @
                    pystr_of ''lido: '' @ str_exception expecting_value))"
    by blast
  then show ?thesis by simp
qed

section \<open>Replies with commentary\<close>

lemma scan_once_no_value_start:
  assumes "\<not> value_start x"
  shows "scan_once (x # rest) = Inl expecting_value"
proof -
  have x: "x \<noteq> 34" "x \<noteq> 123" "x \<noteq> 91" "x \<noteq> 45" "\<not> isdigit x"
    "x \<noteq> 110" "x \<noteq> 116" "x \<noteq> 102" "x \<noteq> 78" "x \<noteq> 73"
    using assms by (auto simp: value_start_def)
  have d: "match_digits x rest = None"
    using x(5) by (auto simp: match_digits_def isdigit_def)
  have m: "match_number (x # rest) = None"
    using x(4) d by (simp add: match_number_def)
  have s: "\<not> startswith (x # rest) (pystr_of ''null'')"
    "\<not> startswith (x # rest) (pystr_of ''true'')"
    "\<not> startswith (x # rest) (pystr_of ''false'')"
    "\<not> startswith (x # rest) (pystr_of ''NaN'')"
    "\<not> startswith (x # rest) (pystr_of ''Infinity'')"
    "\<not> startswith (x # rest) (pystr_of ''-Infinity'')"
    using x by (simp_all add: startswith_def pystr_of_def)
  show ?thesis using x(1,2,3) m s by (simp add: scan_once.simps)
qed

lemma loads_no_value_start:
  assumes "\<not> value_start x" "\<not> isspace x"
  shows "\<exists>e. loads (x # rest) = Inl e"
proof -
  have "\<not> json_ws x" using assms(2) json_ws_isspace by blast
  then have "skip_whitespace (x # rest) = x # rest" by (simp add: skip_whitespace_def)
  then show ?thesis using scan_once_no_value_start [OF assms(1), of rest]
    by (simp add: loads_def)
qed

text \<open>
  C9. Brace-slicing is applied only to a trimmed text that starts with three
  backquotes: any other reply is handed to the decoder as trimmed. So a reply whose
  trimmed text opens with commentary (a character with which no JSON value begins) is
  answered with the malformed-JSON error 502, whatever object follows the commentary.
\<close>

theorem unfenced_commentary_is_not_sliced:
  "(\<not> startswith (strip s) [96, 96, 96] \<longrightarrow> safe_json_loads s = loads (strip s)) \<and>
   (\<forall>x rest. strip s = x # rest \<and> \<not> value_start x \<and> \<not> startswith (strip s) [96, 96, 96]
      \<longrightarrow> (\<exists>e. safe_json_loads s = Inl e \<and>
                fst (generate_quiz lax payload (with_reply w s)) =
                  Inl (HTTPException 502
                         (pystr_of ''Respuesta de Gemini no es JSON v'' @ [225] @
                                pystr_of ''lido: '' @ str_exception e))))"
proof (intro conjI allI impI)
  assume "\<not> startswith (strip s) [96, 96, 96]"
  then show "safe_json_loads s = loads (strip s)" by (simp add: safe_json_loads_def Let_def)
next
  fix x rest
  assume a: "strip s = x # rest \<and> \<not> value_start x \<and> \<not> startswith (strip s) [96, 96, 96]"
  then have ns: "\<not> startswith (strip s) [96, 96, 96]" and sx: "strip s = x # rest"
    and nv: "\<not> value_start x" by blast+
  have "safe_json_loads s = loads (strip s)" using ns by (simp add: safe_json_loads_def Let_def)
  then have l: "safe_json_loads s = loads (x # rest)" using sx by simp
  have "\<not> isspace x" using strip_edges [of s] sx by simp
  with nv obtain e where e: "loads (x # rest) = Inl e" using loads_no_value_start by blast
  then have "safe_json_loads s = Inl e" using l by simp
  then show "\<exists>e. safe_json_loads s = Inl e \<and>
      fst (generate_quiz lax payload (with_reply w s)) =
        Inl (HTTPException 502
               (pystr_of ''Respuesta de Gemini no es JSON v'' @ [225] @
                      pystr_of ''lido: '' @ str_exception e))"
    by (simp add: generate_quiz_with_reply)
qed

theorem unfenced_commentary_is_not_sliced_witness:
  "loads ([123, 34, 97, 34, 58] @ pystr_of ''1}'') = Inr (PyDict [([97], PyInt 1)]) \<and>
   map_sum status_code (\<lambda>out. ())
     (fst (generate_quiz no_coercions quiz_request
        (with_reply (stub_world None)
           (pystr_of ''Quiz: '' @ [123, 34, 97, 34, 58] @ pystr_of ''1}'')))) =
   Inl 502"
proof -
  let ?s = "pystr_of ''Quiz: '' @ [123, 34, 97, 34, 58] @ pystr_of ''1}''"
  have st: "strip ?s = 81 # (pystr_of ''uiz: '' @ [123, 34, 97, 34, 58] @ pystr_of ''1}'')"
    by (simp add: strip_def strip_chars_def isspace_def pystr_of_def)
  have h: "strip ?s = 81 # (pystr_of ''uiz: '' @ [123, 34, 97, 34, 58] @ pystr_of ''1}'') \<and>
      \<not> value_start 81 \<and> \<not> startswith (strip ?s) [96, 96, 96]"
    unfolding st by (simp add: value_start_def isdigit_def startswith_def)
  from unfenced_commentary_is_not_sliced [of ?s no_coercions quiz_request "stub_world None"] h
  obtain e where "fst (generate_quiz no_coercions quiz_request (with_reply (stub_world None) ?s)) =
      Inl (HTTPException 502
             (pystr_of ''Respuesta de Gemini no es JSON v'' @ [225] @
                    pystr_of ''lido: '' @ str_exception e))"
    by blast
  moreover have "loads ([123, 34, 97, 34, 58] @ pystr_of ''1}'') = Inr (PyDict [([97], PyInt 1)])"
    by (simp add: json_eval)
  ultimately show ?thesis by simp
qed

section \<open>The quiz endpoint\<close>

lemma length_str_uuid: "length (str_uuid u) = 36"
  by (simp add: str_uuid_def hex32_def Let_def)

lemma uuid4_drawn: "drawn (snd (uuid4 w)) = Suc (drawn w)"
  by (simp add: uuid4_def Let_def)

lemma safe_json_loads_object_text:
  assumes "s = 123 # body @ [125]"
  shows "safe_json_loads s = loads s"
  using safe_json_loads_plain [of "[]" "[]" body] assms by simp

lemma sample_quiz_shape: "\<exists>body. sample_quiz = 123 # body @ [125]"
proof -
  have "sample_quiz = 123 # butlast (tl sample_quiz) @ [125]"
    by (simp add: sample_quiz_def pystr_of_def)
  then show ?thesis by blast
qed

lemma empty_options_quiz_shape: "\<exists>body. empty_options_quiz = 123 # body @ [125]"
proof -
  have "empty_options_quiz = 123 # butlast (tl empty_options_quiz) @ [125]"
    by (simp add: empty_options_quiz_def pystr_of_def)
  then show ?thesis by blast
qed

lemma safe_json_loads_sample_quiz:
  "safe_json_loads sample_quiz =
     Inr (PyDict
       [(pystr_of ''texto'', PyStr [116]),
        (pystr_of ''preguntas'',
         PyList [sample_question_object, sample_question_object, sample_question_object])])"
proof -
  have "loads sample_quiz =
     Inr (PyDict
       [(pystr_of ''texto'', PyStr [116]),
        (pystr_of ''preguntas'',
         PyList [sample_question_object, sample_question_object, sample_question_object])])"
    by (simp add: sample_quiz_def json_eval sample_question_object_def)
  then show ?thesis using sample_quiz_shape safe_json_loads_object_text by metis
qed

lemma safe_json_loads_empty_options_quiz:
  "safe_json_loads empty_options_quiz =
     Inr (PyDict
       [(pystr_of ''texto'', PyStr [116]),
        (pystr_of ''preguntas'', PyList [empty_options_object])])"
proof -
  have "loads empty_options_quiz =
     Inr (PyDict
       [(pystr_of ''texto'', PyStr [116]),
        (pystr_of ''preguntas'', PyList [empty_options_object])])"
    by (simp add: empty_options_quiz_def json_eval empty_options_object_def)
  then show ?thesis using empty_options_quiz_shape safe_json_loads_object_text by metis
qed

subsection \<open>Values that carry a quiz\<close>

lemma collect_validated:
  "list_all2 (\<lambda>v x. \<forall>l. f l v = Inr x) vs xs \<Longrightarrow>
   collect (map (\<lambda>(i, x). f (loc @ [str_nat i]) x) (enumerate n vs)) = Inr xs"
proof (induction vs xs arbitrary: n rule: list_all2_induct)
  case Nil
  then show ?case by simp
next
  case (Cons v vs x xs)
  then show ?case by simp
qed

lemma validate_list_Inr:
  "list_all2 (\<lambda>v x. \<forall>l. f l v = Inr x) vs xs \<Longrightarrow> validate_list f loc (PyList vs) = Inr xs"
  by (simp add: validate_list_def collect_validated)

lemma validate_str_list: "validate_list (validate_str lax) loc (PyList (map PyStr os)) = Inr os"
proof -
  have "list_all2 (\<lambda>v x. \<forall>l. validate_str lax l v = Inr x) (map PyStr os) os"
    by (simp add: list_all2_map1 validate_str_def list_all2_same)
  then show ?thesis by (rule validate_list_Inr)
qed

lemma validate_QuizItem_encodes:
  assumes "encodes fs q"
  shows "validate_QuizItem lax loc (PyDict fs) = Inr q"
  using assms
  by (simp add: validate_QuizItem_def encodes_def required_def Let_def validate_str_def
      validate_int_def validate_str_list)

lemma validate_QuizItem_question_object:
  "question_object v q \<Longrightarrow> validate_QuizItem lax loc v = Inr q"
  by (cases v) (simp_all add: question_object_def validate_QuizItem_encodes)

lemma QuizPayload_init_questions:
  assumes "map_of fs (pystr_of ''texto'') = Some (PyStr t)"
    and "map_of fs (pystr_of ''preguntas'') = Some (PyList vs)"
    and "list_all2 question_object vs qs"
  shows "QuizPayload_init lax (PyDict fs) =
           Inr \<lparr>QuizPayload.texto = t, QuizPayload.preguntas = qs\<rparr>"
proof -
  have "list_all2 (\<lambda>v q. \<forall>l. validate_QuizItem lax l v = Inr q) vs qs"
    using assms(3) by (rule list_all2_mono) (simp add: validate_QuizItem_question_object)
  then have "validate_list (validate_QuizItem lax) [pystr_of ''preguntas''] (PyList vs) = Inr qs"
    by (rule validate_list_Inr)
  then show ?thesis using assms(1,2)
    by (simp add: QuizPayload_init_def validate_QuizPayload_def required_def Let_def
        validate_str_def)
qed

lemma sample_questions:
  "list_all2 question_object
     [sample_question_object, sample_question_object, sample_question_object]
     [sample_question, sample_question, sample_question]"
  by (simp add: question_object_def encodes_def sample_question_object_def sample_question_def
      pystr_of_def)

lemma empty_options_questions:
  "list_all2 question_object [empty_options_object] [empty_options_question]"
  by (simp add: question_object_def encodes_def empty_options_object_def
      empty_options_question_def pystr_of_def)

lemma stub_generate_content:
  "generate_content (stub_world r) m n p = r" "prompts (stub_world r) = []"
  by (simp_all add: stub_world_def)

text \<open>
  C1, the case of a reply without content. The check of \<open>call_gemini\<close> raises the
  502 error when there is no response or no candidate, and the function then reads
  \<open>resp.text\<close> outside any \<open>try\<close> block. A response whose only
  candidate holds no text (as the safety filter leaves it) passes the check, the
  accessor raises \<open>ValueError\<close>, no handler catches it, and the request is answered
  with status 500: for every request and every state of the world in \<open>generate_quiz\<close>,
  and for the body \<open>{"texto": "ocean currents", "num_preguntas": 3}\<close> at the
  endpoint, where a response with no candidate at all is answered with 502.
\<close>

theorem candidate_without_text_answers_500:
  "fst (generate_quiz lax payload (w\<lparr>generate_content := (\<lambda>model n prompt. blocked_reply)\<rparr>)) =
     Inl (ValueError (pystr_of
       ''Invalid operation: The response.text quick accessor requires the response to contain a valid Part'')) \<and>
   status (fst (api_quiz no_coercions
     (PyDict [(pystr_of ''texto'', PyStr (pystr_of ''ocean currents'')),
              (pystr_of ''num_preguntas'', PyInt 3)])
     (stub_world blocked_reply))) = 500 \<and>
   status (fst (api_quiz no_coercions
     (PyDict [(pystr_of ''texto'', PyStr (pystr_of ''ocean currents'')),
              (pystr_of ''num_preguntas'', PyInt 3)])
     (stub_world (Some \<lparr>candidates = []\<rparr>)))) = 502"
proof -
  have q: "validate_QuizIn no_coercions
      (PyDict [(pystr_of ''texto'', PyStr (pystr_of ''ocean currents'')),
               (pystr_of ''num_preguntas'', PyInt 3)]) = Inr quiz_request"
    by (simp add: validate_QuizIn_def required_def bounded_int_def validate_str_def
        validate_int_def Let_def pystr_of_def quiz_request_def)
  have 1: "fst (generate_quiz lax payload
      (w\<lparr>generate_content := (\<lambda>model n prompt. blocked_reply)\<rparr>)) =
      Inl (ValueError (pystr_of
        ''Invalid operation: The response.text quick accessor requires the response to contain a valid Part''))"
    by (simp add: generate_quiz_def call_gemini_def text'_def blocked_reply_def Let_def)
  have 2: "status (fst (respond (generate_quiz no_coercions quiz_request
      (stub_world blocked_reply)))) = 500"
    by (simp add: generate_quiz_def call_gemini_def text'_def blocked_reply_def Let_def
        stub_world_def respond_def status_def)
  have 3: "status (fst (respond (generate_quiz no_coercions quiz_request
      (stub_world (Some \<lparr>candidates = []\<rparr>))))) = 502"
    by (simp add: generate_quiz_def call_gemini_def Let_def stub_world_def respond_def
        status_def)
  show ?thesis using 1 2 3 by (simp add: api_quiz_def q)
qed
subsection \<open>Items and their options\<close>

text \<open>
  C7, as the specification states it: a parsed object with an item whose \<open>opciones\<close>
  list is empty is answered with the structural-validation error 422. It fails for the
  reply \<open>empty_options_quiz\<close>: the field is declared \<open>List[str]\<close> without a minimum
  length, the empty list validates, and the endpoint returns the quiz with its one item
  and no option.
\<close>

theorem empty_options_counterexample:
  "map_sum status_code (\<lambda>out. map opciones (QuizOut.preguntas out))
     (fst (generate_quiz no_coercions quiz_request (stub_world (reply empty_options_quiz)))) =
   Inr [[]]"
proof -
  have "QuizPayload_init no_coercions
      (PyDict
        [(pystr_of ''texto'', PyStr [116]),
         (pystr_of ''preguntas'', PyList [empty_options_object])]) =
      Inr \<lparr>QuizPayload.texto = [116], QuizPayload.preguntas = [empty_options_question]\<rparr>"
    by (rule QuizPayload_init_questions [OF _ _ empty_options_questions])
       (simp_all add: pystr_of_def)
  then show ?thesis
    by (simp add: stub_world_reply generate_quiz_with_reply safe_json_loads_empty_options_quiz
        empty_options_question_def)
qed

text \<open>
  C7, amended: structural validation accepts a quiz item whose \<open>opciones\<close> field is a
  list of strings of any length, the empty list included. For every reply that is
  normalized to an object with a string \<open>texto\<close> and a list \<open>preguntas\<close> of question
  objects (a string \<open>pregunta\<close>, a list of strings \<open>opciones\<close>, an integer
  \<open>respuesta\<close>, a string \<open>explanation\<close>), \<open>generate_quiz\<close> returns the quiz with
  these items and not the error 422, also when an \<open>opciones\<close> list is empty.
\<close>

theorem options_of_any_length_accepted:
  assumes "safe_json_loads s = Inr (PyDict fs)"
    and "map_of fs (pystr_of ''texto'') = Some (PyStr t)"
    and "map_of fs (pystr_of ''preguntas'') = Some (PyList vs)"
    and "list_all2 question_object vs qs"
  shows "fst (generate_quiz lax payload (with_reply w s)) =
           Inr \<lparr>rsvp_session_id = str_uuid (fst (uuid4 w)), QuizOut.preguntas = qs\<rparr>"
  using assms(1) QuizPayload_init_questions [OF assms(2,3,4), of lax]
  by (simp add: generate_quiz_with_reply)

theorem options_of_any_length_accepted_witness:
  "map_sum status_code QuizOut.preguntas
     (fst (generate_quiz no_coercions quiz_request
        (with_reply (stub_world None) empty_options_quiz))) =
   Inr [empty_options_question] \<and> opciones empty_options_question = []"
proof -
  have "fst (generate_quiz no_coercions quiz_request
        (with_reply (stub_world None) empty_options_quiz)) =
      Inr \<lparr>rsvp_session_id = str_uuid (fst (uuid4 (stub_world None))),
           QuizOut.preguntas = [empty_options_question]\<rparr>"
    by (rule options_of_any_length_accepted
          [OF safe_json_loads_empty_options_quiz _ _ empty_options_questions])
       (simp_all add: pystr_of_def)
  then show ?thesis by (simp add: empty_options_question_def)
qed

text \<open>
  C8. For every \<open>num_preguntas = n\<close> from 3 to 12: when the model's reply (one
  candidate, with its text) is normalized to an object with a string \<open>texto\<close> and a
  list \<open>preguntas\<close> of exactly \<open>n\<close> question objects, \<open>generate_quiz\<close> succeeds,
  and the items of the result are the \<open>n\<close> items these objects carry, field by field
  and in the same order.
\<close>

theorem generate_quiz_n_questions:
  assumes "3 \<le> n" and "n \<le> 12" and "QuizIn.num_preguntas payload = n"
    and "generate_content w MODEL_NAME (length (prompts w))
           (PROMPT_QUIZ (QuizIn.texto payload) n) = Some r"
    and "candidates r = [Some c]"
    and "safe_json_loads (strip c) = Inr (PyDict fs)"
    and "map_of fs (pystr_of ''texto'') = Some (PyStr t)"
    and "map_of fs (pystr_of ''preguntas'') = Some (PyList vs)"
    and "int (length vs) = n"
    and "list_all2 question_object vs qs"
  shows "\<exists>out. fst (generate_quiz lax payload w) = Inr out \<and> QuizOut.preguntas out = qs \<and>
           int (length (QuizOut.preguntas out)) = n"
proof -
  have v: "QuizPayload_init lax (PyDict fs) =
      Inr \<lparr>QuizPayload.texto = t, QuizPayload.preguntas = qs\<rparr>"
    using assms(7,8,10) by (rule QuizPayload_init_questions)
  have l: "length qs = length vs" using assms(10) by (simp add: list_all2_lengthD)
  have "call_gemini (PROMPT_QUIZ (QuizIn.texto payload) n) w =
      (Inr (strip c), w\<lparr>prompts := prompts w @ [PROMPT_QUIZ (QuizIn.texto payload) n]\<rparr>)"
    using assms(4,5) by (simp add: call_gemini_def text'_def Let_def)
  then have "fst (generate_quiz lax payload w) =
      Inr \<lparr>rsvp_session_id =
             str_uuid (fst (uuid4 (w\<lparr>prompts := prompts w @
                                         [PROMPT_QUIZ (QuizIn.texto payload) n]\<rparr>))),
           QuizOut.preguntas = qs\<rparr>"
    using assms(3,6) v by (simp add: generate_quiz_def Let_def split: prod.splits)
  then show ?thesis using l assms(9) by simp
qed

theorem generate_quiz_n_questions_witness:
  "map_sum status_code (\<lambda>out. (QuizOut.preguntas out, length (QuizOut.preguntas out)))
     (fst (generate_quiz no_coercions quiz_request (stub_world (reply sample_quiz)))) =
   Inr ([sample_question, sample_question, sample_question], 3)"
proof -
  let ?w = "stub_world (reply sample_quiz)"
  have n: "(3::int) \<le> 3" "(3::int) \<le> 12" "QuizIn.num_preguntas quiz_request = 3"
    by (simp_all add: quiz_request_def)
  have g: "generate_content ?w MODEL_NAME (length (prompts ?w))
      (PROMPT_QUIZ (QuizIn.texto quiz_request) 3) = Some \<lparr>candidates = [Some sample_quiz]\<rparr>"
    by (simp add: stub_world_def reply_def)
  have c: "candidates \<lparr>candidates = [Some sample_quiz]\<rparr> = [Some sample_quiz]" by simp
  have e: "safe_json_loads (strip sample_quiz) =
      Inr (PyDict
        [(pystr_of ''texto'', PyStr [116]),
         (pystr_of ''preguntas'',
          PyList [sample_question_object, sample_question_object, sample_question_object])])"
    unfolding safe_json_loads_strip by (rule safe_json_loads_sample_quiz)
  have t: "map_of
      [(pystr_of ''texto'', PyStr [116]),
       (pystr_of ''preguntas'',
        PyList [sample_question_object, sample_question_object, sample_question_object])]
      (pystr_of ''texto'') = Some (PyStr [116])"
    by (simp add: pystr_of_def)
  have p: "map_of
      [(pystr_of ''texto'', PyStr [116]),
       (pystr_of ''preguntas'',
        PyList [sample_question_object, sample_question_object, sample_question_object])]
      (pystr_of ''preguntas'') =
      Some (PyList [sample_question_object, sample_question_object, sample_question_object])"
    by (simp add: pystr_of_def)
  have l: "int (length [sample_question_object, sample_question_object, sample_question_object])
      = 3" by simp
  from generate_quiz_n_questions [OF n g c e t p l sample_questions, of no_coercions]
  obtain out where "fst (generate_quiz no_coercions quiz_request ?w) = Inr out"
    "QuizOut.preguntas out = [sample_question, sample_question, sample_question]"
    by blast
  then show ?thesis by simp
qed

section \<open>Validation of the request body\<close>

lemma bounded_int_out_of_range:
  assumes "map_of fs key = Some v" and "validate_int lax (loc @ [key]) v = Inr k"
    and "k < lo \<or> hi < k"
  shows "\<exists>es. bounded_int lax fs loc key dflt lo hi = Inl es \<and> es \<noteq> []"
  using assms by (auto simp: bounded_int_def)

lemma errors_of_Inl: "errors_of (Inl es) = es"
  by (simp add: errors_of_def)

lemma validate_RSVPIn_rejects:
  assumes "bounded_int lax fs [pystr_of ''body''] (pystr_of ''palabras_objetivo'') 250 80 800 = Inl es
    \<or> bounded_int lax fs [pystr_of ''body''] (pystr_of ''num_preguntas'') 5 3 12 = Inl es
    \<or> required fs [pystr_of ''body''] (pystr_of ''topic'') (validate_str lax) = Inl es"
  shows "\<exists>es'. validate_RSVPIn lax (PyDict fs) = Inl es'"
  using assms by (auto simp: validate_RSVPIn_def Let_def split: sum.splits)

lemma validate_QuizIn_rejects:
  assumes "bounded_int lax fs [pystr_of ''body''] (pystr_of ''num_preguntas'') 5 3 12 = Inl es
    \<or> required fs [pystr_of ''body''] (pystr_of ''texto'') (validate_str lax) = Inl es"
  shows "\<exists>es'. validate_QuizIn lax (PyDict fs) = Inl es'"
  using assms by (auto simp: validate_QuizIn_def Let_def split: sum.splits)

text \<open>
  C5. A request whose \<open>palabras_objetivo\<close> is an integer outside 80..800, or whose
  \<open>num_preguntas\<close> is an integer outside 3..12, is answered with status 422 by the
  validation of the request body, and the world is left as it was: no prompt has been
  sent to the model. This holds for the passage route (both fields) and for the quiz
  route (\<open>num_preguntas\<close>).
\<close>

theorem out_of_bounds_rejected_before_upstream:
  "(\<forall>v k. map_of fs (pystr_of ''palabras_objetivo'') = Some v \<and>
          validate_int lax [pystr_of ''body'', pystr_of ''palabras_objetivo''] v = Inr k \<and>
          (k < 80 \<or> 800 < k)
      \<longrightarrow> status (fst (api_rsvp lax (PyDict fs) w)) = 422 \<and>
          snd (api_rsvp lax (PyDict fs) w) = w) \<and>
   (\<forall>v k. map_of fs (pystr_of ''num_preguntas'') = Some v \<and>
          validate_int lax [pystr_of ''body'', pystr_of ''num_preguntas''] v = Inr k \<and>
          (k < 3 \<or> 12 < k)
      \<longrightarrow> status (fst (api_rsvp lax (PyDict fs) w)) = 422 \<and>
          snd (api_rsvp lax (PyDict fs) w) = w \<and>
          status (fst (api_quiz lax (PyDict fs) w)) = 422 \<and>
          snd (api_quiz lax (PyDict fs) w) = w)"
proof (intro conjI allI impI)
  fix v k
  assume a: "map_of fs (pystr_of ''palabras_objetivo'') = Some v \<and>
          validate_int lax [pystr_of ''body'', pystr_of ''palabras_objetivo''] v = Inr k \<and>
          (k < 80 \<or> 800 < k)"
  then obtain es where
    "bounded_int lax fs [pystr_of ''body''] (pystr_of ''palabras_objetivo'') 250 80 800 = Inl es"
    using bounded_int_out_of_range [of fs "pystr_of ''palabras_objetivo''" v lax
        "[pystr_of ''body'']" k 80 800 250]
    by auto
  then obtain es' where r: "validate_RSVPIn lax (PyDict fs) = Inl es'"
    using validate_RSVPIn_rejects by blast
  show "status (fst (api_rsvp lax (PyDict fs) w)) = 422"
    and "snd (api_rsvp lax (PyDict fs) w) = w"
    using r by (simp_all add: api_rsvp_def status_def)
next
  fix v k
  assume a: "map_of fs (pystr_of ''num_preguntas'') = Some v \<and>
          validate_int lax [pystr_of ''body'', pystr_of ''num_preguntas''] v = Inr k \<and>
          (k < 3 \<or> 12 < k)"
  then obtain es where
    b: "bounded_int lax fs [pystr_of ''body''] (pystr_of ''num_preguntas'') 5 3 12 = Inl es"
    using bounded_int_out_of_range [of fs "pystr_of ''num_preguntas''" v lax
        "[pystr_of ''body'']" k 3 12 5]
    by auto
  obtain es' where r: "validate_RSVPIn lax (PyDict fs) = Inl es'"
    using b validate_RSVPIn_rejects by blast
  obtain es'' where q: "validate_QuizIn lax (PyDict fs) = Inl es''"
    using b validate_QuizIn_rejects by blast
  show "status (fst (api_rsvp lax (PyDict fs) w)) = 422"
    and "snd (api_rsvp lax (PyDict fs) w) = w"
    using r by (simp_all add: api_rsvp_def status_def)
  show "status (fst (api_quiz lax (PyDict fs) w)) = 422"
    and "snd (api_quiz lax (PyDict fs) w) = w"
    using q by (simp_all add: api_quiz_def status_def)
qed

theorem out_of_bounds_rejected_before_upstream_witness:
  "status (fst (api_rsvp no_coercions
      (PyDict [(pystr_of ''topic'', PyStr (pystr_of ''ocean currents'')),
               (pystr_of ''palabras_objetivo'', PyInt 50)])
      (stub_world (reply (pystr_of ''agua''))))) = 422 \<and>
   prompts (snd (api_rsvp no_coercions
      (PyDict [(pystr_of ''topic'', PyStr (pystr_of ''ocean currents'')),
               (pystr_of ''palabras_objetivo'', PyInt 50)])
      (stub_world (reply (pystr_of ''agua''))))) = []"
proof -
  let ?fs = "[(pystr_of ''topic'', PyStr (pystr_of ''ocean currents'')),
               (pystr_of ''palabras_objetivo'', PyInt 50)]"
  let ?w = "stub_world (reply (pystr_of ''agua''))"
  have "map_of ?fs (pystr_of ''palabras_objetivo'') = Some (PyInt 50) \<and>
      validate_int no_coercions [pystr_of ''body'', pystr_of ''palabras_objetivo''] (PyInt 50)
        = Inr 50 \<and> ((50::int) < 80 \<or> (800::int) < 50)"
    by (simp add: pystr_of_def validate_int_def)
  with out_of_bounds_rejected_before_upstream [of ?fs no_coercions ?w]
  have "status (fst (api_rsvp no_coercions (PyDict ?fs) ?w)) = 422"
    "snd (api_rsvp no_coercions (PyDict ?fs) ?w) = ?w" by blast+
  then show ?thesis by (simp add: stub_world_def)
qed

subsection \<open>The text fields\<close>

lemma bounded_int_absent: "map_of fs key = None \<Longrightarrow> bounded_int lax fs loc key dflt lo hi = Inr dflt"
  by (simp add: bounded_int_def)

lemma validate_RSVPIn_Inr:
  assumes "validate_RSVPIn lax body = Inr p"
  shows "\<exists>fs v. body = PyDict fs \<and> map_of fs (pystr_of ''topic'') = Some v \<and>
           validate_str lax [pystr_of ''body'', pystr_of ''topic''] v = Inr (topic p)"
proof (cases body)
  case (PyDict fs)
  with assms have "required fs [pystr_of ''body''] (pystr_of ''topic'') (validate_str lax)
      = Inr (topic p)"
    by (auto simp: validate_RSVPIn_def Let_def split: sum.splits)
  then show ?thesis using PyDict by (auto simp: required_def split: option.splits)
qed (use assms in \<open>simp_all add: validate_RSVPIn_def\<close>)

lemma validate_QuizIn_Inr:
  assumes "validate_QuizIn lax body = Inr p"
  shows "\<exists>fs v. body = PyDict fs \<and> map_of fs (pystr_of ''texto'') = Some v \<and>
           validate_str lax [pystr_of ''body'', pystr_of ''texto''] v = Inr (QuizIn.texto p)"
proof (cases body)
  case (PyDict fs)
  with assms have "required fs [pystr_of ''body''] (pystr_of ''texto'') (validate_str lax)
      = Inr (QuizIn.texto p)"
    by (auto simp: validate_QuizIn_def Let_def split: sum.splits)
  then show ?thesis using PyDict by (auto simp: required_def split: option.splits)
qed (use assms in \<open>simp_all add: validate_QuizIn_def\<close>)

text \<open>
  C6, as the specification states it: a request with an empty \<open>topic\<close> or an empty
  source text is rejected before use. It fails for the bodies \<open>{"topic": ""}\<close> and
  \<open>{"texto": ""}\<close>: both fields are declared \<open>str\<close> with no minimum length, both
  requests are accepted, a prompt is sent to the model and the answer has status 200.
\<close>

theorem empty_text_fields_counterexample:
  "status (fst (api_rsvp no_coercions (PyDict [(pystr_of ''topic'', PyStr [])])
      (stub_world (reply (pystr_of ''agua''))))) = 200 \<and>
   length (prompts (snd (api_rsvp no_coercions (PyDict [(pystr_of ''topic'', PyStr [])])
      (stub_world (reply (pystr_of ''agua'')))))) = 1 \<and>
   status (fst (api_quiz no_coercions (PyDict [(pystr_of ''texto'', PyStr [])])
      (stub_world (reply empty_options_quiz)))) = 200"
proof -
  have v: "validate_RSVPIn no_coercions (PyDict [(pystr_of ''topic'', PyStr [])]) =
      Inr \<lparr>topic = [], palabras_objetivo = 250, RSVPIn.num_preguntas = 5\<rparr>"
    by (simp add: validate_RSVPIn_def required_def bounded_int_def validate_str_def Let_def
        pystr_of_def)
  have q: "validate_QuizIn no_coercions (PyDict [(pystr_of ''texto'', PyStr [])]) =
      Inr \<lparr>QuizIn.texto = [], QuizIn.num_preguntas = 5\<rparr>"
    by (simp add: validate_QuizIn_def required_def bounded_int_def validate_str_def Let_def
        pystr_of_def)
  have i: "QuizPayload_init no_coercions
      (PyDict
        [(pystr_of ''texto'', PyStr [116]),
         (pystr_of ''preguntas'', PyList [empty_options_object])]) =
      Inr \<lparr>QuizPayload.texto = [116], QuizPayload.preguntas = [empty_options_question]\<rparr>"
    by (rule QuizPayload_init_questions [OF _ _ empty_options_questions])
       (simp_all add: pystr_of_def)
  have 1: "api_rsvp no_coercions (PyDict [(pystr_of ''topic'', PyStr [])])
      (stub_world (reply (pystr_of ''agua''))) =
      respond (generate_rsvp \<lparr>topic = [], palabras_objetivo = 250, RSVPIn.num_preguntas = 5\<rparr>
        (stub_world (reply (pystr_of ''agua''))))"
    by (simp add: api_rsvp_def v)
  have 2: "generate_rsvp \<lparr>topic = [], palabras_objetivo = 250, RSVPIn.num_preguntas = 5\<rparr>
        (stub_world (reply (pystr_of ''agua''))) =
      (Inr \<lparr>id' = str_uuid (fst (uuid4 (stub_world (reply (pystr_of ''agua''))))),
            RSVPOut.texto = strip (pystr_of ''agua''),
            palabras = split_ws (strip (pystr_of ''agua''))\<rparr>,
       (stub_world (reply (pystr_of ''agua'')))
         \<lparr>prompts := [PROMPT_TEXTO [] 250], drawn := 1\<rparr>)"
    by (simp add: generate_rsvp_def call_gemini_def text'_def stub_world_def reply_def Let_def
        uuid4_def)
  have 3: "fst (api_quiz no_coercions (PyDict [(pystr_of ''texto'', PyStr [])])
      (stub_world (reply empty_options_quiz))) =
      Success \<lparr>rsvp_session_id = str_uuid (fst (uuid4 (stub_world None))),
               QuizOut.preguntas = [empty_options_question]\<rparr>"
  proof -
    have "fst (generate_quiz no_coercions \<lparr>QuizIn.texto = [], QuizIn.num_preguntas = 5\<rparr>
        (stub_world (reply empty_options_quiz))) =
        Inr \<lparr>rsvp_session_id = str_uuid (fst (uuid4 (stub_world None))),
             QuizOut.preguntas = [empty_options_question]\<rparr>"
      by (simp add: stub_world_reply generate_quiz_with_reply safe_json_loads_empty_options_quiz i)
    then show ?thesis
      by (cases "generate_quiz no_coercions \<lparr>QuizIn.texto = [], QuizIn.num_preguntas = 5\<rparr>
        (stub_world (reply empty_options_quiz))") (simp add: api_quiz_def q respond_def)
  qed
  show ?thesis unfolding 1 2 3 by (simp add: respond_def status_def)
qed

text \<open>
  C6, amended: every accepted passage request has a \<open>topic\<close> and every accepted quiz
  request a source text that validates as a string, and a request without the field is
  rejected with status 422 before use, the world unchanged, like the numeric bounds. Any
  string is accepted, the empty one included.
\<close>

theorem text_fields_required_not_nonempty:
  "(map_of fs (pystr_of ''topic'') = None \<longrightarrow>
      status (fst (api_rsvp lax (PyDict fs) w)) = 422 \<and> snd (api_rsvp lax (PyDict fs) w) = w) \<and>
   (map_of fs (pystr_of ''texto'') = None \<longrightarrow>
      status (fst (api_quiz lax (PyDict fs) w)) = 422 \<and> snd (api_quiz lax (PyDict fs) w) = w) \<and>
   (\<forall>p. validate_RSVPIn lax body = Inr p \<longrightarrow>
      (\<exists>fs' v. body = PyDict fs' \<and> map_of fs' (pystr_of ''topic'') = Some v \<and>
         validate_str lax [pystr_of ''body'', pystr_of ''topic''] v = Inr (topic p))) \<and>
   (\<forall>p. validate_QuizIn lax body = Inr p \<longrightarrow>
      (\<exists>fs' v. body = PyDict fs' \<and> map_of fs' (pystr_of ''texto'') = Some v \<and>
         validate_str lax [pystr_of ''body'', pystr_of ''texto''] v = Inr (QuizIn.texto p))) \<and>
   (\<forall>t. map_of fs (pystr_of ''topic'') = Some (PyStr t) \<and>
        map_of fs (pystr_of ''palabras_objetivo'') = None \<and>
        map_of fs (pystr_of ''num_preguntas'') = None \<longrightarrow>
      validate_RSVPIn lax (PyDict fs) =
        Inr \<lparr>topic = t, palabras_objetivo = 250, RSVPIn.num_preguntas = 5\<rparr>) \<and>
   (\<forall>t. map_of fs (pystr_of ''texto'') = Some (PyStr t) \<and>
        map_of fs (pystr_of ''num_preguntas'') = None \<longrightarrow>
      validate_QuizIn lax (PyDict fs) = Inr \<lparr>QuizIn.texto = t, QuizIn.num_preguntas = 5\<rparr>)"
proof (intro conjI allI impI)
  assume "map_of fs (pystr_of ''topic'') = None"
  then have "\<exists>es. required fs [pystr_of ''body''] (pystr_of ''topic'') (validate_str lax) = Inl es"
    by (simp add: required_def)
  then obtain es' where r: "validate_RSVPIn lax (PyDict fs) = Inl es'"
    using validate_RSVPIn_rejects by blast
  show "status (fst (api_rsvp lax (PyDict fs) w)) = 422"
    and "snd (api_rsvp lax (PyDict fs) w) = w"
    using r by (simp_all add: api_rsvp_def status_def)
next
  assume "map_of fs (pystr_of ''texto'') = None"
  then have "\<exists>es. required fs [pystr_of ''body''] (pystr_of ''texto'') (validate_str lax) = Inl es"
    by (simp add: required_def)
  then obtain es' where r: "validate_QuizIn lax (PyDict fs) = Inl es'"
    using validate_QuizIn_rejects by blast
  show "status (fst (api_quiz lax (PyDict fs) w)) = 422"
    and "snd (api_quiz lax (PyDict fs) w) = w"
    using r by (simp_all add: api_quiz_def status_def)
next
  fix p assume "validate_RSVPIn lax body = Inr p"
  then show "\<exists>fs' v. body = PyDict fs' \<and> map_of fs' (pystr_of ''topic'') = Some v \<and>
         validate_str lax [pystr_of ''body'', pystr_of ''topic''] v = Inr (topic p)"
    by (rule validate_RSVPIn_Inr)
next
  fix p assume "validate_QuizIn lax body = Inr p"
  then show "\<exists>fs' v. body = PyDict fs' \<and> map_of fs' (pystr_of ''texto'') = Some v \<and>
         validate_str lax [pystr_of ''body'', pystr_of ''texto''] v = Inr (QuizIn.texto p)"
    by (rule validate_QuizIn_Inr)
next
  fix t
  assume "map_of fs (pystr_of ''topic'') = Some (PyStr t) \<and>
        map_of fs (pystr_of ''palabras_objetivo'') = None \<and>
        map_of fs (pystr_of ''num_preguntas'') = None"
  then show "validate_RSVPIn lax (PyDict fs) =
        Inr \<lparr>topic = t, palabras_objetivo = 250, RSVPIn.num_preguntas = 5\<rparr>"
    by (simp add: validate_RSVPIn_def required_def bounded_int_absent validate_str_def Let_def)
next
  fix t
  assume "map_of fs (pystr_of ''texto'') = Some (PyStr t) \<and>
        map_of fs (pystr_of ''num_preguntas'') = None"
  then show "validate_QuizIn lax (PyDict fs) = Inr \<lparr>QuizIn.texto = t, QuizIn.num_preguntas = 5\<rparr>"
    by (simp add: validate_QuizIn_def required_def bounded_int_absent validate_str_def Let_def)
qed

theorem text_fields_required_not_nonempty_witness:
  "status (fst (api_rsvp no_coercions (PyDict [(pystr_of ''palabras_objetivo'', PyInt 200)])
      (stub_world (reply (pystr_of ''agua''))))) = 422 \<and>
   prompts (snd (api_rsvp no_coercions (PyDict [(pystr_of ''palabras_objetivo'', PyInt 200)])
      (stub_world (reply (pystr_of ''agua''))))) = [] \<and>
   validate_RSVPIn no_coercions (PyDict [(pystr_of ''topic'', PyStr [])]) =
     Inr \<lparr>topic = [], palabras_objetivo = 250, RSVPIn.num_preguntas = 5\<rparr>"
proof -
  let ?fs = "[(pystr_of ''palabras_objetivo'', PyInt 200)]"
  let ?gs = "[(pystr_of ''topic'', PyStr [])]"
  let ?w = "stub_world (reply (pystr_of ''agua''))"
  have a: "map_of ?fs (pystr_of ''topic'') = None" by (simp add: pystr_of_def)
  have b: "map_of ?gs (pystr_of ''topic'') = Some (PyStr []) \<and>
        map_of ?gs (pystr_of ''palabras_objetivo'') = None \<and>
        map_of ?gs (pystr_of ''num_preguntas'') = None" by (simp add: pystr_of_def)
  from text_fields_required_not_nonempty [of ?fs no_coercions ?w] a
  have 1: "status (fst (api_rsvp no_coercions (PyDict ?fs) ?w)) = 422"
    "snd (api_rsvp no_coercions (PyDict ?fs) ?w) = ?w" by blast+
  from text_fields_required_not_nonempty [of ?gs no_coercions ?w] b
  have 2: "validate_RSVPIn no_coercions (PyDict ?gs) =
     Inr \<lparr>topic = [], palabras_objetivo = 250, RSVPIn.num_preguntas = 5\<rparr>" by blast
  show ?thesis using 1 2 by (simp add: stub_world_def)
qed

end
